theory Spec2Isabelle
  imports Complex_Main
begin

section \<open>Numbers\<close>

text \<open>
  A TypeScript \<open>number\<close> is an IEEE 754 double. It is modelled by the real number it
  denotes. \<open>fl\<close> rounds a real to the nearest double: 53 significant bits, ties to the
  even significand (\<open>rte\<close> rounds to the nearest integer, ties to even), and gradual
  underflow, the spacing never falling below \<open>2 powi - 1074\<close>. Every arithmetic operation
  of the code is the exact operation followed by \<open>fl\<close>. The operands are rounded as well:
  this leaves a double as it is, and lets a decimal literal such as \<open>0.29\<close> stand for the
  double nearest to it. Comparisons read the numbers as they are stored. Overflow to
  \<open>Infinity\<close> and \<open>NaN\<close> have no counterpart in the reals and are not modelled; fitness
  values, rates and array lengths stay far away from \<open>2 ^ 1024\<close>, and every divisor in
  the code is a non-zero literal, the length of a non-empty array, or tested to be
  non-zero before the division.
\<close>

definition rte :: "real \<Rightarrow> int" where
  "rte y =
     (let f = \<lfloor>y\<rfloor>; d = y - of_int f
      in if d < 1 / 2 then f else if 1 / 2 < d then f + 1 else if even f then f else f + 1)"

definition fl :: "real \<Rightarrow> real" where
  "fl x =
     (if x = 0 then 0
      else let q = max (\<lfloor>log 2 \<bar>x\<bar>\<rfloor> - 52) (- 1074)
           in 2 powi q * of_int (rte (x / 2 powi q)))"

definition fadd :: "real \<Rightarrow> real \<Rightarrow> real" where
  "fadd x y = fl (fl x + fl y)"

definition fsub :: "real \<Rightarrow> real \<Rightarrow> real" where
  "fsub x y = fl (fl x - fl y)"

definition fmul :: "real \<Rightarrow> real \<Rightarrow> real" where
  "fmul x y = fl (fl x * fl y)"

definition fdiv :: "real \<Rightarrow> real \<Rightarrow> real" where
  "fdiv x y = fl (fl x / fl y)"

text \<open>
  Half the spacing of the subnormal doubles: the absolute error that gradual underflow
  adds to the relative error \<open>2 ^ - 53\<close> of a rounding.
\<close>

definition subnormal_half_ulp :: real where
  "subnormal_half_ulp = 2 powi (- 1075)"

text \<open>
  \<open>Math.sqrt\<close> is correctly rounded; \<open>Math.log2\<close> is taken to be. \<open>Math.pow(x, 2)\<close> is
  the rounded product of \<open>x\<close> with itself.
\<close>

definition fsqrt :: "real \<Rightarrow> real" where
  "fsqrt x = fl (sqrt (fl x))"

definition flog2 :: "real \<Rightarrow> real" where
  "flog2 x = fl (log 2 (fl x))"

section \<open>Data model\<close>

text \<open>
  Timestamps (\<open>Date.now()\<close>) are natural numbers. An exception is a value of type
  \<open>exn\<close>; a function that may throw returns \<open>exn + 'a\<close> with \<open>Inl\<close> the exception.
\<close>

datatype exn = Error string | TypeError string

datatype AgentType = Requirements | Architecture | CodeGeneration | Testing | Deployment

record AgentCapability =
  cap_name :: string
  cap_description :: string
  cap_requiredPermissions :: "string list"
  cap_version :: string

record FitnessComponents =
  codeQuality :: real
  performance :: real
  reliability :: real
  userSatisfaction :: real
  resourceEfficiency :: real

record FitnessScore =
  overall :: real
  components :: FitnessComponents
  fs_timestamp :: nat

text \<open>
  \<open>state.fitness\<close> is tested for truthiness by the evaluator, so it is optional here.
\<close>

record AgentState =
  isActive :: bool
  isEvolving :: bool
  executionCount :: nat
  errorCount :: nat
  state_fitness :: "FitnessScore option"

record AgentMetadata =
  createdAt :: nat
  updatedAt :: nat
  parentId :: "string option"
  meta_generation :: nat
  mutationHistory :: "string list"
  meta_tags :: "string list"

text \<open>
  An \<open>IAgent\<close> object. The methods \<open>execute\<close> and \<open>serialize\<close> of \<open>BaseAgent\<close> live on
  the class prototype; an object spread \<open>{...agent}\<close> copies own properties only, so the
  copies made by crossover and mutation do not have them. \<open>hasMethods\<close> records whether
  the object still has its prototype methods. \<open>agent_state\<close> is optional because a
  property read on a missing \<open>state\<close> is the one place where the component evaluation
  itself can throw.
\<close>

record IAgent =
  agent_id :: string
  agent_type :: AgentType
  agent_version :: string
  capabilities :: "AgentCapability list"
  agent_state :: "AgentState option"
  metadata :: AgentMetadata
  hasMethods :: bool

record PopulationAgent =
  agent :: IAgent
  fitness :: FitnessScore
  age :: nat
  isElite :: bool

datatype SelectionStrategyType =
  Tournament | RouletteWheel | Rank | TruncationSelection | StochasticUniversalSampling

section \<open>JavaScript array primitives\<close>

text \<open>
  \<open>xs.slice(0, n)\<close>: a negative end counts from the end of the array.
\<close>

definition js_slice0 :: "'a list \<Rightarrow> int \<Rightarrow> 'a list" where
  "js_slice0 xs n =
     (if n < 0 then take (nat (int (length xs) + n)) xs else take (nat n) xs)"

text \<open>
  \<open>xs.sort((a, b) => key b - key a)\<close>: the stable sort of ECMAScript, descending in the
  key. The comparator's result is used for its sign only, and the rounded difference
  of two doubles has the sign of their exact difference.
\<close>

definition sort_desc :: "('a \<Rightarrow> real) \<Rightarrow> 'a list \<Rightarrow> 'a list" where
  "sort_desc key xs = sort_key (\<lambda>x. - key x) xs"

text \<open>
  \<open>[...xs].sort(() => Math.random() - 0.5)\<close>: with an inconsistent comparator the order
  is implementation-defined, but the result is a rearrangement of \<open>xs\<close>. The
  rearrangement is chosen by a list of indices supplied from outside: each index picks
  (modulo the number of elements left) the next element.
\<close>

fun shuffle :: "nat list \<Rightarrow> 'a list \<Rightarrow> 'a list" where
  "shuffle ks [] = []"
| "shuffle [] (x # xs) = x # xs"
| "shuffle (k # ks) (x # xs) =
     (let ys = x # xs; i = k mod length ys
      in ys ! i # shuffle ks (take i ys @ drop (Suc i) ys))"

section \<open>SelectionStrategy\<close>

text \<open>
  The randomness a \<open>select\<close> call consumes: \<open>perms i\<close> is the shuffle of tournament round
  \<open>i\<close>, \<open>draws i\<close> the value of \<open>Math.random()\<close> in roulette iteration \<open>i\<close>.
\<close>

record SelectionEnv =
  perms :: "nat \<Rightarrow> nat list"
  draws :: "nat \<Rightarrow> real"

definition selectRandomAgents :: "nat list \<Rightarrow> PopulationAgent list \<Rightarrow> int \<Rightarrow> PopulationAgent list" where
  "selectRandomAgents perm agents count = js_slice0 (shuffle perm agents) count"

text \<open>
  \<open>tournament.reduce((best, current) => ...)\<close> without an initial value: a TypeError on
  the empty array.
\<close>

definition tournament_winner :: "PopulationAgent list \<Rightarrow> exn + PopulationAgent" where
  "tournament_winner tournament =
     (case tournament of
        [] \<Rightarrow> Inl (TypeError ''Reduce of empty array with no initial value'')
      | x # xs \<Rightarrow>
          Inr (foldl (\<lambda>best current.
                 if overall (fitness current) > overall (fitness best) then current else best)
               x xs))"

definition tournamentSize :: "PopulationAgent list \<Rightarrow> int" where
  "tournamentSize agents = max 2 \<lfloor>fmul (real (length agents)) 0.1\<rfloor>"

fun tournament_loop ::
  "(nat \<Rightarrow> nat list) \<Rightarrow> PopulationAgent list \<Rightarrow> nat list \<Rightarrow> IAgent list \<Rightarrow> exn + IAgent list" where
  "tournament_loop ps agents [] selected = Inr selected"
| "tournament_loop ps agents (i # is) selected =
     (case tournament_winner (selectRandomAgents (ps i) agents (tournamentSize agents)) of
        Inl e \<Rightarrow> Inl e
      | Inr winner \<Rightarrow> tournament_loop ps agents is (selected @ [agent winner]))"

definition tournamentSelection ::
  "(nat \<Rightarrow> nat list) \<Rightarrow> PopulationAgent list \<Rightarrow> int \<Rightarrow> exn + IAgent list" where
  "tournamentSelection ps agents count = tournament_loop ps agents [0..<nat count] []"

definition totalFitness :: "PopulationAgent list \<Rightarrow> real" where
  "totalFitness agents = foldl (\<lambda>sum a. fadd sum (overall (fitness a))) 0 agents"

text \<open>
  The inner \<open>for (const agent of agents)\<close> of the roulette wheel: \<open>None\<close> when the walk
  reaches the end of the array without selecting anybody, as happens when rounding
  leaves \<open>randomValue\<close> positive after the last member.
\<close>

fun roulette_walk :: "real \<Rightarrow> PopulationAgent list \<Rightarrow> IAgent option" where
  "roulette_walk randomValue [] = None"
| "roulette_walk randomValue (a # as) =
     (let randomValue' = fsub randomValue (overall (fitness a))
      in if randomValue' \<le> 0 then Some (agent a) else roulette_walk randomValue' as)"

fun roulette_loop ::
  "(nat \<Rightarrow> real) \<Rightarrow> PopulationAgent list \<Rightarrow> nat list \<Rightarrow> IAgent list \<Rightarrow> IAgent list" where
  "roulette_loop ds agents [] selected = selected"
| "roulette_loop ds agents (i # is) selected =
     roulette_loop ds agents is
       (case roulette_walk (fmul (ds i) (totalFitness agents)) agents of
          None \<Rightarrow> selected
        | Some a \<Rightarrow> selected @ [a])"

definition rouletteWheelSelection ::
  "(nat \<Rightarrow> real) \<Rightarrow> PopulationAgent list \<Rightarrow> int \<Rightarrow> IAgent list" where
  "rouletteWheelSelection ds agents count = roulette_loop ds agents [0..<nat count] []"

definition rankSelection :: "PopulationAgent list \<Rightarrow> int \<Rightarrow> IAgent list" where
  "rankSelection agents count =
     map agent (js_slice0 (sort_desc (\<lambda>a. overall (fitness a)) agents) count)"

definition select ::
  "SelectionStrategyType \<Rightarrow> SelectionEnv \<Rightarrow> PopulationAgent list \<Rightarrow> int \<Rightarrow> exn + IAgent list" where
  "select strategy env agents count =
     (case strategy of
        Tournament \<Rightarrow> tournamentSelection (perms env) agents count
      | RouletteWheel \<Rightarrow> Inr (rouletteWheelSelection (draws env) agents count)
      | Rank \<Rightarrow> Inr (rankSelection agents count)
      | _ \<Rightarrow> tournamentSelection (perms env) agents count)"

section \<open>CrossoverOperator\<close>

text \<open>
  Identifiers are built from \<open>Date.now()\<close> and from
  \<open>Math.random().toString(36).substr(2, 9)\<close>; both come from outside, as a pair
  (clock value, random suffix).
\<close>

type_synonym idsource = "nat \<times> string"

fun string_of_nat :: "nat \<Rightarrow> string" where
  "string_of_nat n =
     (if n < 10 then [char_of (48 + n)]
      else string_of_nat (n div 10) @ [char_of (48 + n mod 10)])"

definition generateChildId :: "idsource \<Rightarrow> string" where
  "generateChildId src = ''child_'' @ string_of_nat (fst src) @ ''_'' @ snd src"

definition createChild :: "idsource \<Rightarrow> IAgent \<Rightarrow> IAgent \<Rightarrow> IAgent" where
  "createChild src primaryParent secondaryParent =
     primaryParent
       \<lparr> agent_id := generateChildId src,
         agent_version := ''1.0.0'',
         capabilities :=
           capabilities primaryParent @ js_slice0 (capabilities secondaryParent) 1,
         metadata :=
           (metadata primaryParent)
             \<lparr> parentId := Some (agent_id primaryParent),
               meta_generation :=
                 max (meta_generation (metadata primaryParent))
                     (meta_generation (metadata secondaryParent)) + 1,
               mutationHistory := [],
               meta_tags := [''crossover''] \<rparr>,
         hasMethods := False \<rparr>"

definition crossover :: "idsource \<Rightarrow> idsource \<Rightarrow> IAgent \<Rightarrow> IAgent \<Rightarrow> IAgent list" where
  "crossover src1 src2 parent1 parent2 =
     [createChild src1 parent1 parent2, createChild src2 parent2 parent1]"

section \<open>FitnessEvaluator\<close>

record FitnessWeights =
  w_codeQuality :: real
  w_performance :: real
  w_reliability :: real
  w_userSatisfaction :: real
  w_resourceEfficiency :: real

definition defaultWeights :: FitnessWeights where
  "defaultWeights =
     \<lparr> w_codeQuality = 0.25, w_performance = 0.20, w_reliability = 0.25,
       w_userSatisfaction = 0.15, w_resourceEfficiency = 0.15 \<rparr>"

record TaskMetrics =
  executionTime :: real
  memoryUsed :: real
  qualityScore :: "real option"

record TaskResult =
  success :: bool
  error_defined :: bool
  metrics :: "TaskMetrics option"

text \<open>
  What one evaluation of one agent reads from outside: the outcome of
  \<open>agent.execute(task)\<close> for the benchmark task with a given id (a result, or a thrown
  exception), the duration \<open>performanceMonitor.endTrace\<close> reports for that task, the
  system metrics and the clock.
\<close>

record EvalEnv =
  execute :: "string \<Rightarrow> exn + TaskResult"
  traceDuration :: "string \<Rightarrow> real"
  memoryPercentage :: real
  cpuUsage :: real
  eval_now :: nat

definition agent_execute :: "EvalEnv \<Rightarrow> IAgent \<Rightarrow> string \<Rightarrow> exn + TaskResult" where
  "agent_execute env a task =
     (if hasMethods a then execute env task
      else Inl (TypeError ''agent.execute is not a function''))"

definition createCodeQualityTasks :: "string list" where
  "createCodeQualityTasks = [''code-quality-1'', ''code-quality-2'']"

definition createPerformanceTasks :: "string list" where
  "createPerformanceTasks = [''performance-1'']"

definition createReliabilityTasks :: "string list" where
  "createReliabilityTasks = [''reliability-1'', ''reliability-2'']"

definition scoreCodeQuality_fallback :: "TaskResult \<Rightarrow> real" where
  "scoreCodeQuality_fallback result =
     (let score0 = 0.5;
          score1 = (case metrics result of
                      Some m \<Rightarrow>
                        if executionTime m \<noteq> 0 \<and> executionTime m < 1000
                        then fadd score0 0.2 else score0
                    | None \<Rightarrow> score0);
          score2 = (if \<not> error_defined result then fadd score1 0.3 else score1)
      in min 1.0 score2)"

definition scoreCodeQuality :: "TaskResult \<Rightarrow> real" where
  "scoreCodeQuality result =
     (case metrics result of
        Some m \<Rightarrow>
          (case qualityScore m of
             Some q \<Rightarrow> if q \<noteq> 0 then q else scoreCodeQuality_fallback result
           | None \<Rightarrow> scoreCodeQuality_fallback result)
      | None \<Rightarrow> scoreCodeQuality_fallback result)"

definition scorePerformance :: "TaskResult \<Rightarrow> real \<Rightarrow> real" where
  "scorePerformance result execTime =
     (let baseScore = (if success result then 0.7 else 0.3);
          timeScore = max 0 (fsub 1 (fdiv execTime 5000))
      in fdiv (fadd baseScore timeScore) 2)"

definition codeQuality_step :: "EvalEnv \<Rightarrow> IAgent \<Rightarrow> real \<times> nat \<Rightarrow> string \<Rightarrow> real \<times> nat" where
  "codeQuality_step env a acc task =
     (case agent_execute env a task of
        Inl e \<Rightarrow> (fst acc, snd acc + 1)
      | Inr result \<Rightarrow>
          ((if success result then fadd (fst acc) (scoreCodeQuality result) else fst acc),
           snd acc + 1))"

definition evaluateCodeQuality :: "EvalEnv \<Rightarrow> IAgent \<Rightarrow> real" where
  "evaluateCodeQuality env a =
     (let acc = foldl (codeQuality_step env a) (0, 0) createCodeQualityTasks
      in if snd acc > 0 then fdiv (fst acc) (real (snd acc)) else 0)"

definition performance_step :: "EvalEnv \<Rightarrow> IAgent \<Rightarrow> real \<times> nat \<Rightarrow> string \<Rightarrow> real \<times> nat" where
  "performance_step env a acc task =
     (case agent_execute env a task of
        Inl e \<Rightarrow> (fst acc, snd acc + 1)
      | Inr result \<Rightarrow>
          ((if success result
            then fadd (fst acc) (scorePerformance result (traceDuration env task))
            else fst acc),
           snd acc + 1))"

definition evaluatePerformance :: "EvalEnv \<Rightarrow> IAgent \<Rightarrow> real" where
  "evaluatePerformance env a =
     (let acc = foldl (performance_step env a) (0, 0) createPerformanceTasks
      in if snd acc > 0 then fdiv (fst acc) (real (snd acc)) else 0)"

definition reliability_step :: "EvalEnv \<Rightarrow> IAgent \<Rightarrow> nat \<Rightarrow> string \<Rightarrow> nat" where
  "reliability_step env a successCount task =
     (case agent_execute env a task of
        Inl e \<Rightarrow> successCount
      | Inr result \<Rightarrow> if success result then successCount + 1 else successCount)"

definition evaluateReliability :: "EvalEnv \<Rightarrow> IAgent \<Rightarrow> real" where
  "evaluateReliability env a =
     (let successCount = foldl (reliability_step env a) 0 createReliabilityTasks;
          totalTasks = length createReliabilityTasks
      in if totalTasks > 0 then fdiv (real successCount) (real totalTasks) else 0)"

definition evaluateUserSatisfaction :: "IAgent \<Rightarrow> exn + real" where
  "evaluateUserSatisfaction a =
     (case agent_state a of
        None \<Rightarrow> Inl (TypeError ''Cannot read properties of undefined (reading fitness)'')
      | Some st \<Rightarrow>
          (case state_fitness st of
             Some fitnessHistory \<Rightarrow>
               Inr (min 1.0 (fadd 0.7 (fmul (fsub (overall fitnessHistory) 0.5) 0.4)))
           | None \<Rightarrow> Inr 0.7))"

definition evaluateResourceEfficiency :: "EvalEnv \<Rightarrow> real" where
  "evaluateResourceEfficiency env =
     (let memoryEfficiency = fsub 1 (fdiv (memoryPercentage env) 100);
          cpuEfficiency = fsub 1 (fdiv (cpuUsage env) 100)
      in fdiv (fadd memoryEfficiency cpuEfficiency) 2)"

definition evaluateComponents :: "EvalEnv \<Rightarrow> IAgent \<Rightarrow> exn + FitnessComponents" where
  "evaluateComponents env a =
     (case evaluateUserSatisfaction a of
        Inl e \<Rightarrow> Inl e
      | Inr us \<Rightarrow>
          Inr \<lparr> codeQuality = evaluateCodeQuality env a,
                performance = evaluatePerformance env a,
                reliability = evaluateReliability env a,
                userSatisfaction = us,
                resourceEfficiency = evaluateResourceEfficiency env \<rparr>)"

definition calculateOverallFitness :: "FitnessWeights \<Rightarrow> FitnessComponents \<Rightarrow> real" where
  "calculateOverallFitness weights c =
     fadd (fadd (fadd (fadd (fmul (codeQuality c) (w_codeQuality weights))
                            (fmul (performance c) (w_performance weights)))
                      (fmul (reliability c) (w_reliability weights)))
                (fmul (userSatisfaction c) (w_userSatisfaction weights)))
          (fmul (resourceEfficiency c) (w_resourceEfficiency weights))"

text \<open>
  The weighted sum of the specification, in exact arithmetic with the weights
  0.25/0.20/0.25/0.15/0.15, and the same sum over the magnitudes of the components, the
  scale against which a floating-point tolerance is measured.
\<close>

definition weightedSum :: "FitnessComponents \<Rightarrow> real" where
  "weightedSum c =
     codeQuality c * 0.25 + performance c * 0.20 + reliability c * 0.25 +
     userSatisfaction c * 0.15 + resourceEfficiency c * 0.15"

definition weightedMagnitude :: "FitnessComponents \<Rightarrow> real" where
  "weightedMagnitude c =
     \<bar>codeQuality c\<bar> * 0.25 + \<bar>performance c\<bar> * 0.20 + \<bar>reliability c\<bar> * 0.25 +
     \<bar>userSatisfaction c\<bar> * 0.15 + \<bar>resourceEfficiency c\<bar> * 0.15"

definition createMinimalFitness :: "nat \<Rightarrow> FitnessScore" where
  "createMinimalFitness now =
     \<lparr> overall = 0.1,
       components =
         \<lparr> codeQuality = 0.1, performance = 0.1, reliability = 0.1,
           userSatisfaction = 0.1, resourceEfficiency = 0.1 \<rparr>,
       fs_timestamp = now \<rparr>"

text \<open>\<open>try { body } catch (error) { handler }\<close>.\<close>

definition try_catch :: "exn + 'a \<Rightarrow> (exn \<Rightarrow> exn + 'a) \<Rightarrow> exn + 'a" where
  "try_catch body handler = (case body of Inl e \<Rightarrow> handler e | Inr v \<Rightarrow> Inr v)"

text \<open>
  \<open>evaluate\<close>: tracing, logging and telemetry neither throw nor influence the result
  and are left out.
\<close>

definition evaluate :: "FitnessWeights \<Rightarrow> EvalEnv \<Rightarrow> IAgent \<Rightarrow> exn + FitnessScore" where
  "evaluate weights env a =
     try_catch
       (case evaluateComponents env a of
          Inl e \<Rightarrow> Inl e
        | Inr c \<Rightarrow>
            Inr \<lparr> overall = calculateOverallFitness weights c,
                  components = c,
                  fs_timestamp = eval_now env \<rparr>)
       (\<lambda>error. Inr (createMinimalFitness (eval_now env)))"

section \<open>PopulationManager\<close>

record PopulationStatistics =
  stat_size :: nat
  averageFitness :: real
  bestFitness :: real
  worstFitness :: real
  diversity :: real
  convergence :: real
  mutationSuccessRate :: real

record Population =
  pop_id :: string
  pop_generation :: nat
  agents :: "PopulationAgent list"
  statistics :: PopulationStatistics
  pop_timestamp :: nat

text \<open>The six \<open>Math.random()\<close> values one call of \<open>createInitialFitness\<close> consumes.\<close>

record FitnessDraws =
  r_overall :: real
  r_codeQuality :: real
  r_performance :: real
  r_reliability :: real
  r_userSatisfaction :: real
  r_resourceEfficiency :: real
  r_now :: nat

definition createInitialFitness :: "FitnessDraws \<Rightarrow> FitnessScore" where
  "createInitialFitness d =
     (let ov = fadd 0.3 (fmul (r_overall d) 0.4)
      in \<lparr> overall = ov,
           components =
             \<lparr> codeQuality = fadd ov (fmul (fsub (r_codeQuality d) 0.5) 0.2),
               performance = fadd ov (fmul (fsub (r_performance d) 0.5) 0.2),
               reliability = fadd ov (fmul (fsub (r_reliability d) 0.5) 0.2),
               userSatisfaction = fadd ov (fmul (fsub (r_userSatisfaction d) 0.5) 0.2),
               resourceEfficiency = fadd ov (fmul (fsub (r_resourceEfficiency d) 0.5) 0.2) \<rparr>,
           fs_timestamp = r_now d \<rparr>)"

definition allAgentTypes :: "AgentType list" where
  "allAgentTypes = [Requirements, Architecture, CodeGeneration, Testing, Deployment]"

definition calculateDiversity :: "PopulationAgent list \<Rightarrow> real" where
  "calculateDiversity as =
     (if length as < 2 then 1.0
      else
        let types = map (\<lambda>a. agent_type (agent a)) as;
            total = real (length as);
            dv = foldl (\<lambda>d t.
                    let proportion = fdiv (real (count_list types t)) total
                    in if proportion > 0 then fsub d (fmul proportion (flog2 proportion)) else d)
                  0 (remdups types);
            maxDiversity = flog2 (real (min (length as) (length allAgentTypes)))
        in if maxDiversity > 0 then fdiv dv maxDiversity else 0)"

definition calculateStatistics :: "PopulationAgent list \<Rightarrow> PopulationStatistics" where
  "calculateStatistics as =
     (if length as = 0 then
        \<lparr> stat_size = 0, averageFitness = 0, bestFitness = 0, worstFitness = 0,
          diversity = 0, convergence = 0, mutationSuccessRate = 0 \<rparr>
      else
        let fitnessValues = map (\<lambda>a. overall (fitness a)) as;
            sum = foldl fadd 0 fitnessValues;
            avg = fdiv sum (real (length fitnessValues));
            best = Max (set fitnessValues);
            worst = Min (set fitnessValues);
            variance =
              fdiv (foldl (\<lambda>acc val. fadd acc (fmul (fsub val avg) (fsub val avg)))
                      0 fitnessValues)
                   (real (length fitnessValues));
            conv = fsub 1 (fdiv (fsqrt variance)
                             (if fsub best worst \<noteq> 0 then fsub best worst else 1))
        in \<lparr> stat_size = length as, averageFitness = avg, bestFitness = best,
             worstFitness = worst, diversity = calculateDiversity as,
             convergence = max 0 (min 1 conv), mutationSuccessRate = 0.5 \<rparr>)"

text \<open>
  \<open>createPopulation\<close>: \<open>ds i\<close> are the random draws for the fitness of member \<open>i\<close>;
  the id and the timestamp of the population come from outside.
\<close>

definition createPopulation ::
  "(nat \<Rightarrow> FitnessDraws) \<Rightarrow> string \<Rightarrow> nat \<Rightarrow> IAgent list \<Rightarrow> nat \<Rightarrow> Population" where
  "createPopulation ds pid now as gen =
     (let populationAgents =
            map (\<lambda>(index, a).
                   \<lparr> agent = a,
                     fitness = createInitialFitness (ds index),
                     age = 0,
                     isElite = (int index < \<lfloor>fmul (real (length as)) 0.1\<rfloor>) \<rparr>)
                (enumerate 0 as)
      in \<lparr> pop_id = pid, pop_generation = gen, agents = populationAgents,
           statistics = calculateStatistics populationAgents, pop_timestamp = now \<rparr>)"

section \<open>ArchiveManager\<close>

text \<open>
  Of an entry, the fields the archive computes with are kept; \<open>mutationDelta\<close> and the
  environment part of \<open>metadata\<close> are constants of the running process. The \<open>entries\<close>
  map is a JavaScript \<open>Map\<close>, whose \<open>values()\<close> are in insertion order: a list of
  entries, updated by key.
\<close>

record AgentSnapshot =
  snap_id :: string
  snap_type :: AgentType
  snap_version :: string
  snap_capabilities :: "AgentCapability list"
  snap_generation :: "nat option"
  snap_timestamp :: nat

record ArchiveEntry =
  entry_id :: string
  entry_parentId :: "string option"
  agentSnapshot :: AgentSnapshot
  fitnessMetrics :: FitnessScore
  entry_timestamp :: nat
  entry_reason :: string
  entry_tags :: "string list"

record ArchiveIndex =
  byFitness :: "real \<rightharpoonup> string list"
  byGeneration :: "nat \<rightharpoonup> string list"
  byAgentType :: "string \<rightharpoonup> string list"
  byTag :: "string \<rightharpoonup> string list"

record ArchiveStatistics =
  totalEntries :: nat
  uniqueAgents :: nat
  arch_averageFitness :: real
  arch_bestFitness :: real

record Archive =
  entries :: "ArchiveEntry list"
  index :: ArchiveIndex
  arch_statistics :: ArchiveStatistics
  arch_updatedAt :: nat

datatype SortCriteria =
  FitnessDesc | FitnessAsc | DateDesc | DateAsc | GenerationDesc | GenerationAsc

record ArchiveQuery =
  q_agentType :: "string option"
  minFitness :: "real option"
  maxFitness :: "real option"
  q_tags :: "string list option"
  q_parentId :: "string option"
  dateRange :: "(nat \<times> nat) option"
  q_limit :: "nat option"
  q_offset :: "nat option"
  sortBy :: "SortCriteria option"

record ArchiveSearchResult =
  res_entries :: "ArchiveEntry list"
  totalCount :: nat
  hasMore :: bool
  res_query :: ArchiveQuery

definition agentTypeString :: "AgentType \<Rightarrow> string" where
  "agentTypeString t =
     (case t of
        Requirements \<Rightarrow> ''requirements''
      | Architecture \<Rightarrow> ''architecture''
      | CodeGeneration \<Rightarrow> ''code-generation''
      | Testing \<Rightarrow> ''testing''
      | Deployment \<Rightarrow> ''deployment'')"

definition emptyArchive :: "nat \<Rightarrow> Archive" where
  "emptyArchive now =
     \<lparr> entries = [],
       index = \<lparr> byFitness = Map.empty, byGeneration = Map.empty,
                 byAgentType = Map.empty, byTag = Map.empty \<rparr>,
       arch_statistics = \<lparr> totalEntries = 0, uniqueAgents = 0,
                           arch_averageFitness = 0, arch_bestFitness = 0 \<rparr>,
       arch_updatedAt = now \<rparr>"

text \<open>\<open>entries.set(id, entry)\<close>: an existing key keeps its place.\<close>

fun entries_set :: "ArchiveEntry \<Rightarrow> ArchiveEntry list \<Rightarrow> ArchiveEntry list" where
  "entries_set e [] = [e]"
| "entries_set e (x # xs) =
     (if entry_id x = entry_id e then e # xs else x # entries_set e xs)"

definition index_push :: "('k \<rightharpoonup> string list) \<Rightarrow> 'k \<Rightarrow> string \<Rightarrow> ('k \<rightharpoonup> string list)" where
  "index_push m k v = m(k \<mapsto> (case m k of None \<Rightarrow> [] | Some vs \<Rightarrow> vs) @ [v])"

definition updateIndices :: "ArchiveEntry \<Rightarrow> ArchiveIndex \<Rightarrow> ArchiveIndex" where
  "updateIndices entry ix =
     (let fitnessKey = fdiv (real_of_int \<lfloor>fmul (overall (fitnessMetrics entry)) 10\<rfloor>) 10;
          generation = (case snap_generation (agentSnapshot entry) of
                          None \<Rightarrow> 0 | Some g \<Rightarrow> g)
      in \<lparr> byFitness = index_push (byFitness ix) fitnessKey (entry_id entry),
           byGeneration = index_push (byGeneration ix) generation (entry_id entry),
           byAgentType =
             index_push (byAgentType ix)
               (agentTypeString (snap_type (agentSnapshot entry))) (entry_id entry),
           byTag =
             foldl (\<lambda>m tag. index_push m tag (entry_id entry)) (byTag ix)
               (entry_tags entry) \<rparr>)"

definition updateStatistics :: "nat \<Rightarrow> Archive \<Rightarrow> Archive" where
  "updateStatistics now ar =
     (let es = entries ar;
          stats = arch_statistics ar;
          stats1 = stats \<lparr> totalEntries := length es,
                           uniqueAgents :=
                             length (remdups (map (\<lambda>e. snap_id (agentSnapshot e)) es)) \<rparr>;
          fitnessValues = map (\<lambda>e. overall (fitnessMetrics e)) es;
          stats2 =
            (if length es > 0
             then stats1 \<lparr> arch_averageFitness :=
                             fdiv (foldl fadd 0 fitnessValues)
                                  (real (length fitnessValues)),
                           arch_bestFitness := Max (set fitnessValues) \<rparr>
             else stats1)
      in ar \<lparr> arch_statistics := stats2, arch_updatedAt := now \<rparr>)"

definition serialize :: "nat \<Rightarrow> IAgent \<Rightarrow> exn + AgentSnapshot" where
  "serialize now a =
     (if hasMethods a
      then Inr \<lparr> snap_id = agent_id a, snap_type = agent_type a,
                 snap_version = agent_version a,
                 snap_capabilities = capabilities a,
                 snap_generation = None, snap_timestamp = now \<rparr>
      else Inl (TypeError ''agent.serialize is not a function''))"

definition generateEntryId :: "idsource \<Rightarrow> string" where
  "generateEntryId src = ''entry_'' @ string_of_nat (fst src) @ ''_'' @ snd src"

definition archiveAgent ::
  "idsource \<Rightarrow> nat \<Rightarrow> IAgent \<Rightarrow> FitnessScore \<Rightarrow> string \<Rightarrow> Archive \<Rightarrow> exn + ArchiveEntry \<times> Archive" where
  "archiveAgent src now a fit reason ar =
     (case serialize now a of
        Inl e \<Rightarrow> Inl e
      | Inr snap \<Rightarrow>
          let entry = \<lparr> entry_id = generateEntryId src, entry_parentId = None,
                        agentSnapshot = snap, fitnessMetrics = fit,
                        entry_timestamp = now, entry_reason = reason,
                        entry_tags = [agentTypeString (agent_type a), reason] \<rparr>
          in Inr (entry,
                  updateStatistics now
                    (ar \<lparr> entries := entries_set entry (entries ar),
                          index := updateIndices entry (index ar) \<rparr>)))"

definition sortEntries :: "ArchiveEntry list \<Rightarrow> SortCriteria option \<Rightarrow> ArchiveEntry list" where
  "sortEntries es sb =
     (case (case sb of None \<Rightarrow> FitnessDesc | Some c \<Rightarrow> c) of
        FitnessAsc \<Rightarrow> sort_key (\<lambda>e. overall (fitnessMetrics e)) es
      | FitnessDesc \<Rightarrow> sort_desc (\<lambda>e. overall (fitnessMetrics e)) es
      | DateAsc \<Rightarrow> sort_key entry_timestamp es
      | DateDesc \<Rightarrow> sort_desc (\<lambda>e. real (entry_timestamp e)) es
      | _ \<Rightarrow> es)"

text \<open>The chain of filters of \<open>search\<close>, before sorting and pagination.\<close>

definition search_filter :: "Archive \<Rightarrow> ArchiveQuery \<Rightarrow> ArchiveEntry list" where
  "search_filter ar query =
     (let es0 = entries ar;
          es1 = (case q_agentType query of
                   None \<Rightarrow> es0
                 | Some t \<Rightarrow>
                     if t = [] then es0
                     else let typeEntries =
                                (case byAgentType (index ar) t of None \<Rightarrow> [] | Some ids \<Rightarrow> ids)
                          in filter (\<lambda>e. entry_id e \<in> set typeEntries) es0);
          es2 = (case minFitness query of
                   None \<Rightarrow> es1
                 | Some lo \<Rightarrow> filter (\<lambda>e. overall (fitnessMetrics e) \<ge> lo) es1);
          es3 = (case maxFitness query of
                   None \<Rightarrow> es2
                 | Some hi \<Rightarrow> filter (\<lambda>e. overall (fitnessMetrics e) \<le> hi) es2);
          es4 = (case q_tags query of
                   None \<Rightarrow> es3
                 | Some ts \<Rightarrow>
                     if length ts > 0
                     then filter (\<lambda>e. \<exists>tag \<in> set ts. tag \<in> set (entry_tags e)) es3
                     else es3);
          es5 = (case dateRange query of
                   None \<Rightarrow> es4
                 | Some (start, end) \<Rightarrow>
                     filter (\<lambda>e. entry_timestamp e \<ge> start \<and> entry_timestamp e \<le> end) es4)
      in es5)"

definition search :: "Archive \<Rightarrow> ArchiveQuery \<Rightarrow> ArchiveSearchResult" where
  "search ar query =
     (let es = sortEntries (search_filter ar query) (sortBy query);
          total = length es;
          offset = (case q_offset query of None \<Rightarrow> 0 | Some n \<Rightarrow> n);
          limit = (case q_limit query of None \<Rightarrow> 50 | Some n \<Rightarrow> if n = 0 then 50 else n);
          paginatedEntries = take limit (drop offset es)
      in \<lparr> res_entries = paginatedEntries, totalCount = total,
           hasMore = (offset + limit < total), res_query = query \<rparr>)"

text \<open>The brute-force reference of the fitness-range query, in the words of the specification.\<close>

definition bruteForceRange :: "Archive \<Rightarrow> real \<Rightarrow> real \<Rightarrow> ArchiveEntry list" where
  "bruteForceRange ar a b =
     filter (\<lambda>e. a \<le> overall (fitnessMetrics e) \<and> overall (fitnessMetrics e) \<le> b) (entries ar)"

definition fitnessRangeQuery :: "real \<Rightarrow> real \<Rightarrow> ArchiveQuery" where
  "fitnessRangeQuery a b =
     \<lparr> q_agentType = None, minFitness = Some a, maxFitness = Some b, q_tags = None,
       q_parentId = None, dateRange = None, q_limit = None, q_offset = None,
       sortBy = None \<rparr>"

section \<open>EvolutionEngine\<close>

record EvolutionConfig =
  populationSize :: int
  crossoverRate :: real
  elitismRate :: real
  selectionStrategy :: SelectionStrategyType
  convergenceThreshold :: real

record CycleResults =
  improved :: int
  degraded :: int
  unchanged :: int
  failed :: int
  averageFitnessChange :: real

datatype EvolutionPhase =
  Initialization | Evaluation | Selection | Crossover | Mutation | Replacement | Completed

text \<open>
  Population objects are shared and mutated in place: \<open>cycle.population\<close> is the object
  that was current when the cycle started, and it is still the current one while the
  first generation evaluates and sorts it. Populations therefore live in a store, and
  the engine and the cycles hold references (addresses) into it.
\<close>

record EvolutionCycle =
  cycle_id :: string
  cycle_generation :: nat
  startTime :: nat
  endTime :: "nat option"
  phase :: EvolutionPhase
  cycle_population :: "nat option"
  cycle_mutations :: "string list"
  results :: CycleResults

record EvolutionHistory =
  cycles :: "EvolutionCycle list"
  totalGenerations :: nat
  totalMutations :: nat
  successfulMutations :: nat

record EvolutionEngine =
  heap :: "nat \<rightharpoonup> Population"
  next_ref :: nat
  currentPopulation :: "nat option"
  currentCycle :: "EvolutionCycle option"
  history :: EvolutionHistory
  isRunning :: bool
  shouldStop :: bool
  archive :: Archive

text \<open>
  What one generation reads from outside. \<open>mutateOutcome i a\<close> is the outcome of
  \<open>mutationGenerator.mutate\<close> on the \<open>i\<close>-th offspring \<open>a\<close> (the mutated agent, or a
  thrown exception); \<open>stopRequested\<close> tells whether \<open>stopEvolution()\<close> is called while
  this generation runs.
\<close>

record GenEnv =
  evalEnvs :: "nat \<Rightarrow> EvalEnv"
  selEnv :: SelectionEnv
  childIds :: "nat \<Rightarrow> idsource"
  mutateOutcome :: "nat \<Rightarrow> IAgent \<Rightarrow> exn + IAgent"
  fitnessDraws :: "nat \<Rightarrow> FitnessDraws"
  newPopId :: string
  newPopNow :: nat
  improvedDraw :: real
  degradedDraw :: real
  stopRequested :: bool

record CycleEnv =
  cycleIdSrc :: idsource
  startNow :: nat
  endNow :: nat
  gens :: "nat \<Rightarrow> GenEnv"
  archiveIds :: "nat \<Rightarrow> idsource"
  archiveNow :: "nat \<Rightarrow> nat"

definition thePopulation :: "EvolutionEngine \<Rightarrow> Population option" where
  "thePopulation s = (case currentPopulation s of None \<Rightarrow> None | Some r \<Rightarrow> heap s r)"

fun evaluate_members ::
  "FitnessWeights \<Rightarrow> (nat \<Rightarrow> EvalEnv) \<Rightarrow> nat \<Rightarrow> PopulationAgent list \<Rightarrow> exn option \<times> PopulationAgent list" where
  "evaluate_members w envs i [] = (None, [])"
| "evaluate_members w envs i (m # ms) =
     (case evaluate w (envs i) (agent m) of
        Inl e \<Rightarrow> (Some e, m # ms)
      | Inr f \<Rightarrow>
          (let rest = evaluate_members w envs (Suc i) ms
           in (fst rest, m \<lparr> fitness := f \<rparr> # snd rest)))"

definition evaluatePopulation ::
  "FitnessWeights \<Rightarrow> (nat \<Rightarrow> EvalEnv) \<Rightarrow> EvolutionEngine \<Rightarrow> exn option \<times> EvolutionEngine" where
  "evaluatePopulation w envs s =
     (case currentPopulation s of
        None \<Rightarrow> (None, s)
      | Some r \<Rightarrow>
          (case heap s r of
             None \<Rightarrow> (None, s)
           | Some p \<Rightarrow>
               (let res = evaluate_members w envs 0 (agents p)
                in case fst res of
                     Some e \<Rightarrow> (Some e, s \<lparr> heap := (heap s)(r \<mapsto> p \<lparr> agents := snd res \<rparr>) \<rparr>)
                   | None \<Rightarrow>
                       (None,
                        s \<lparr> heap := (heap s)(r \<mapsto>
                              p \<lparr> agents := snd res,
                                  statistics := calculateStatistics (snd res) \<rparr>) \<rparr>))))"

definition selectParents ::
  "EvolutionConfig \<Rightarrow> SelectionEnv \<Rightarrow> EvolutionEngine \<Rightarrow> exn + IAgent list" where
  "selectParents cfg senv s =
     (case thePopulation s of
        None \<Rightarrow> Inr []
      | Some p \<Rightarrow>
          select (selectionStrategy cfg) senv (agents p)
            \<lfloor>fmul (real (length (agents p))) (crossoverRate cfg)\<rfloor>)"

text \<open>
  \<open>for (let i = 0; i < parents.length - 1; i += 2)\<close>: the parents are taken two at a
  time; \<open>k\<close> counts the pairs, for the identifiers of the children.
\<close>

fun performCrossover :: "(nat \<Rightarrow> idsource) \<Rightarrow> nat \<Rightarrow> IAgent list \<Rightarrow> IAgent list" where
  "performCrossover ids k (parent1 # parent2 # ps) =
     crossover (ids (2 * k)) (ids (2 * k + 1)) parent1 parent2
       @ performCrossover ids (Suc k) ps"
| "performCrossover ids k ps = []"

definition performMutation ::
  "GenEnv \<Rightarrow> IAgent list \<Rightarrow> EvolutionEngine \<Rightarrow> IAgent list \<times> EvolutionEngine" where
  "performMutation genv as s =
     (let indexed = enumerate 0 as;
          mutatedAgents =
            map (\<lambda>(i, a). case mutateOutcome genv i a of Inl e \<Rightarrow> a | Inr a' \<Rightarrow> a') indexed;
          succeeded = length (filter (\<lambda>(i, a). \<not> isl (mutateOutcome genv i a)) indexed);
          h = history s
      in (mutatedAgents,
          s \<lparr> history :=
                h \<lparr> totalMutations := totalMutations h + length as,
                    successfulMutations := successfulMutations h + succeeded \<rparr> \<rparr>))"

definition eliteCount :: "EvolutionConfig \<Rightarrow> Population \<Rightarrow> int" where
  "eliteCount cfg p = \<lfloor>fmul (real (length (agents p))) (elitismRate cfg)\<rfloor>"

definition sortedAgents :: "Population \<Rightarrow> PopulationAgent list" where
  "sortedAgents p = sort_desc (\<lambda>a. overall (fitness a)) (agents p)"

definition elites :: "EvolutionConfig \<Rightarrow> Population \<Rightarrow> IAgent list" where
  "elites cfg p = map agent (js_slice0 (sortedAgents p) (eliteCount cfg p))"

definition replacePopulation ::
  "EvolutionConfig \<Rightarrow> GenEnv \<Rightarrow> IAgent list \<Rightarrow> EvolutionEngine \<Rightarrow> EvolutionEngine" where
  "replacePopulation cfg genv newAgents s =
     (case currentPopulation s of
        None \<Rightarrow> s
      | Some r \<Rightarrow>
          (case heap s r of
             None \<Rightarrow> s
           | Some p \<Rightarrow>
               (let combinedAgents = elites cfg p @ newAgents;
                    newPop =
                      createPopulation (fitnessDraws genv) (newPopId genv) (newPopNow genv)
                        (js_slice0 combinedAgents (populationSize cfg))
                        (pop_generation p + 1)
                in s \<lparr> heap := ((heap s)(r \<mapsto> p \<lparr> agents := sortedAgents p \<rparr>))
                                 (next_ref s \<mapsto> newPop),
                       next_ref := Suc (next_ref s),
                       currentPopulation := Some (next_ref s) \<rparr>)))"

text \<open>
  The local variable \<open>cycle\<close> of \<open>runEvolutionCycle\<close> and \<open>this.currentCycle\<close> are one
  object: the cycle is threaded next to the engine state and the field is kept equal
  to it.
\<close>

definition set_phase ::
  "EvolutionPhase \<Rightarrow> EvolutionCycle \<times> EvolutionEngine \<Rightarrow> EvolutionCycle \<times> EvolutionEngine" where
  "set_phase ph cs =
     (let c = (fst cs) \<lparr> phase := ph \<rparr> in (c, (snd cs) \<lparr> currentCycle := Some c \<rparr>))"

definition updateCycleResults ::
  "GenEnv \<Rightarrow> EvolutionCycle \<times> EvolutionEngine \<Rightarrow> exn option \<times> EvolutionCycle \<times> EvolutionEngine" where
  "updateCycleResults genv cs =
     (case (case cycle_population (fst cs) of None \<Rightarrow> None | Some r \<Rightarrow> heap (snd cs) r) of
        None \<Rightarrow>
          (Some (TypeError ''Cannot read properties of undefined (reading agents)''), cs)
      | Some p \<Rightarrow>
          (let imp = \<lfloor>fmul (improvedDraw genv) 5\<rfloor>;
               deg = \<lfloor>fmul (degradedDraw genv) 2\<rfloor>;
               c = (fst cs) \<lparr> results := (results (fst cs))
                      \<lparr> improved := imp, degraded := deg,
                        unchanged := int (length (agents p)) - imp - deg \<rparr> \<rparr>
           in (None, (c, (snd cs) \<lparr> currentCycle := Some c \<rparr>))))"

definition calculateVariance :: "real list \<Rightarrow> real" where
  "calculateVariance vals =
     (let mean = fdiv (foldl fadd 0 vals) (real (length vals));
          squaredDiffs = map (\<lambda>v. fmul (fsub v mean) (fsub v mean)) vals
      in fdiv (foldl fadd 0 squaredDiffs) (real (length vals)))"

definition hasConverged :: "EvolutionConfig \<Rightarrow> EvolutionEngine \<Rightarrow> exn + bool" where
  "hasConverged cfg s =
     (let cs = cycles (history s)
      in if length cs < 10 then Inr False
         else
           let recentCycles = drop (length cs - 10) cs;
               fitnessValues =
                 those (map (\<lambda>c. case cycle_population c of
                                   None \<Rightarrow> None
                                 | Some r \<Rightarrow>
                                     map_option (\<lambda>p. averageFitness (statistics p)) (heap s r))
                          recentCycles)
           in case fitnessValues of
                None \<Rightarrow>
                  Inl (TypeError ''Cannot read properties of undefined (reading statistics)'')
              | Some vals \<Rightarrow> Inr (calculateVariance vals < convergenceThreshold cfg))"

definition runGeneration ::
  "EvolutionConfig \<Rightarrow> FitnessWeights \<Rightarrow> GenEnv \<Rightarrow> EvolutionCycle \<times> EvolutionEngine
     \<Rightarrow> exn option \<times> EvolutionCycle \<times> EvolutionEngine" where
  "runGeneration cfg w genv cs =
     (let cs1 = set_phase Evaluation cs;
          ev = evaluatePopulation w (evalEnvs genv) (snd cs1)
      in case fst ev of
           Some e \<Rightarrow> (Some e, (fst cs1, snd ev))
         | None \<Rightarrow>
             (let cs2 = set_phase Selection (fst cs1, snd ev)
              in case selectParents cfg (selEnv genv) (snd cs2) of
                   Inl e \<Rightarrow> (Some e, cs2)
                 | Inr parents \<Rightarrow>
                     (let cs3 = set_phase Crossover cs2;
                          offspring = performCrossover (childIds genv) 0 parents;
                          cs4 = set_phase Mutation cs3;
                          mu = performMutation genv offspring (snd cs4);
                          cs5 = set_phase Replacement (fst cs4, snd mu);
                          s6 = replacePopulation cfg genv (fst mu) (snd cs5)
                      in updateCycleResults genv (fst cs5, s6))))"

text \<open>
  The \<open>for\<close> loop of \<open>runEvolutionCycle\<close>: \<open>g\<close> is the loop variable \<open>generation\<close>, the
  third argument what is left of \<open>maxGenerations\<close>.
\<close>

fun run_loop ::
  "EvolutionConfig \<Rightarrow> FitnessWeights \<Rightarrow> (nat \<Rightarrow> GenEnv) \<Rightarrow> nat \<Rightarrow> nat
     \<Rightarrow> EvolutionCycle \<times> EvolutionEngine \<Rightarrow> exn option \<times> EvolutionCycle \<times> EvolutionEngine" where
  "run_loop cfg w envs g 0 cs = (None, cs)"
| "run_loop cfg w envs g (Suc k) cs =
     (if shouldStop (snd cs) then (None, cs)
      else
        let s0 = (snd cs) \<lparr> shouldStop := stopRequested (envs g) \<rparr>;
            res = runGeneration cfg w (envs g) (fst cs, s0)
        in case fst res of
             Some e \<Rightarrow> res
           | None \<Rightarrow>
               (case hasConverged cfg (snd (snd res)) of
                  Inl e \<Rightarrow> (Some e, snd res)
                | Inr conv \<Rightarrow>
                    if conv then (None, snd res)
                    else run_loop cfg w envs (Suc g) k (snd res)))"

definition generateCycleId :: "idsource \<Rightarrow> string" where
  "generateCycleId src = ''cycle_'' @ string_of_nat (fst src) @ ''_'' @ snd src"

definition runEvolutionCycle ::
  "EvolutionConfig \<Rightarrow> FitnessWeights \<Rightarrow> CycleEnv \<Rightarrow> nat \<Rightarrow> EvolutionEngine
     \<Rightarrow> (exn + EvolutionCycle) \<times> EvolutionEngine" where
  "runEvolutionCycle cfg w env maxGenerations s =
     (let cycle =
            \<lparr> cycle_id = generateCycleId (cycleIdSrc env),
              cycle_generation = totalGenerations (history s) + 1,
              startTime = startNow env,
              endTime = None,
              phase = Initialization,
              cycle_population = currentPopulation s,
              cycle_mutations = [],
              results = \<lparr> improved = 0, degraded = 0, unchanged = 0, failed = 0,
                          averageFitnessChange = 0 \<rparr> \<rparr>;
          res = run_loop cfg w (gens env) 0 maxGenerations
                  (cycle, s \<lparr> currentCycle := Some cycle \<rparr>);
          s' = (snd (snd res)) \<lparr> currentCycle := None \<rparr>
      in case fst res of
           Some e \<Rightarrow> (Inl e, s')
         | None \<Rightarrow>
             (Inr ((fst (snd res)) \<lparr> phase := Completed, endTime := Some (endNow env) \<rparr>),
              s'))"

fun archive_loop ::
  "CycleEnv \<Rightarrow> string \<Rightarrow> nat \<Rightarrow> PopulationAgent list \<Rightarrow> EvolutionEngine
     \<Rightarrow> exn option \<times> EvolutionEngine" where
  "archive_loop env reason i [] s = (None, s)"
| "archive_loop env reason i (m # ms) s =
     (case archiveAgent (archiveIds env i) (archiveNow env i) (agent m) (fitness m)
             reason (archive s) of
        Inl e \<Rightarrow> (Some e, s)
      | Inr res \<Rightarrow> archive_loop env reason (Suc i) ms (s \<lparr> archive := snd res \<rparr>))"

definition archiveBestAgents ::
  "CycleEnv \<Rightarrow> EvolutionCycle \<Rightarrow> EvolutionEngine \<Rightarrow> exn option \<times> EvolutionEngine" where
  "archiveBestAgents env cycle s =
     (case cycle_population cycle of
        None \<Rightarrow> (Some (TypeError ''Cannot read properties of undefined (reading agents)''), s)
      | Some r \<Rightarrow>
          (case heap s r of
             None \<Rightarrow>
               (Some (TypeError ''Cannot read properties of undefined (reading agents)''), s)
           | Some p \<Rightarrow>
               archive_loop env
                 (''Generation '' @ string_of_nat (cycle_generation cycle) @ '' top performer'')
                 0 (js_slice0 (sortedAgents p) 5)
                 (s \<lparr> heap := (heap s)(r \<mapsto> p \<lparr> agents := sortedAgents p \<rparr>) \<rparr>)))"

definition AlreadyRunning :: exn where
  "AlreadyRunning = Error ''Evolution is already running''"

text \<open>
  \<open>evolve\<close>: the guard, the body of the \<open>try\<close>, and the \<open>finally\<close> that clears
  \<open>isRunning\<close> on every exit of the \<open>try\<close>.
\<close>

definition evolve_body ::
  "EvolutionConfig \<Rightarrow> FitnessWeights \<Rightarrow> CycleEnv \<Rightarrow> nat \<Rightarrow> EvolutionEngine
     \<Rightarrow> (exn + EvolutionCycle) \<times> EvolutionEngine" where
  "evolve_body cfg w env generations s =
     (let run = runEvolutionCycle cfg w env generations s
      in case fst run of
           Inl e \<Rightarrow> run
         | Inr cycle \<Rightarrow>
             (let ar = archiveBestAgents env cycle (snd run)
              in case fst ar of
                   Some e \<Rightarrow> (Inl e, snd ar)
                 | None \<Rightarrow>
                     (let h = history (snd ar)
                      in (Inr cycle,
                          (snd ar) \<lparr> history :=
                            h \<lparr> cycles := cycles h @ [cycle],
                                totalGenerations := totalGenerations h + generations \<rparr> \<rparr>))))"

definition evolve ::
  "EvolutionConfig \<Rightarrow> FitnessWeights \<Rightarrow> CycleEnv \<Rightarrow> nat \<Rightarrow> EvolutionEngine
     \<Rightarrow> (exn + EvolutionCycle) \<times> EvolutionEngine" where
  "evolve cfg w env generations s =
     (if isRunning s then (Inl AlreadyRunning, s)
      else
        let res = evolve_body cfg w env generations
                    (s \<lparr> isRunning := True, shouldStop := False \<rparr>)
        in (fst res, (snd res) \<lparr> isRunning := False \<rparr>))"

section \<open>Concrete inputs\<close>

text \<open>
  The inputs at which the theorems below are instantiated. \<open>ex_agent\<close> is what
  \<open>new BaseAgent(id, type, '1.0.0')\<close> builds (no capabilities, generation 0, initial
  state fitness 0.5).
\<close>

definition ex_fitness :: "real \<Rightarrow> FitnessScore" where
  "ex_fitness v =
     \<lparr> overall = v,
       components = \<lparr> codeQuality = v, performance = v, reliability = v,
                      userSatisfaction = v, resourceEfficiency = v \<rparr>,
       fs_timestamp = 0 \<rparr>"

definition ex_agent :: "string \<Rightarrow> IAgent" where
  "ex_agent i =
     \<lparr> agent_id = i, agent_type = Requirements, agent_version = ''1.0.0'',
       capabilities = [],
       agent_state = Some \<lparr> isActive = True, isEvolving = False, executionCount = 0,
                            errorCount = 0, state_fitness = Some (ex_fitness 0.5) \<rparr>,
       metadata = \<lparr> createdAt = 0, updatedAt = 0, parentId = None, meta_generation = 0,
                    mutationHistory = [], meta_tags = [''requirements''] \<rparr>,
       hasMethods = True \<rparr>"

definition ex_member :: "string \<Rightarrow> real \<Rightarrow> PopulationAgent" where
  "ex_member i v = \<lparr> agent = ex_agent i, fitness = ex_fitness v, age = 0, isElite = False \<rparr>"

definition ex_cap :: "string \<Rightarrow> AgentCapability" where
  "ex_cap n = \<lparr> cap_name = n, cap_description = [], cap_requiredPermissions = [],
               cap_version = ''1.0.0'' \<rparr>"

definition ex_selEnv :: SelectionEnv where
  "ex_selEnv = \<lparr> perms = (\<lambda>i. []), draws = (\<lambda>i. 1 / 2) \<rparr>"




definition ex_signedPop :: "PopulationAgent list" where
  "ex_signedPop =
     [ex_member ''agent_1'' (- 0.5), ex_member ''agent_2'' 0.5, ex_member ''agent_3'' 0]"

definition ex_zeroPop :: "PopulationAgent list" where
  "ex_zeroPop = [ex_member ''agent_1'' 0, ex_member ''agent_2'' 0]"

definition ex_zeroDraws :: "nat \<Rightarrow> real" where
  "ex_zeroDraws i = (if i = 0 then 1 / 10 else 9 / 10)"

text \<open>
  The uniform random choice of the specification, for comparison with the roulette
  wheel: a draw \<open>r\<close> in \<open>[0, 1)\<close> picks the member at index \<open>floor (r * length)\<close>.
\<close>

definition spec_uniformChoice :: "PopulationAgent list \<Rightarrow> real \<Rightarrow> IAgent" where
  "spec_uniformChoice as r = agent (as ! nat \<lfloor>r * real (length as)\<rfloor>)"

definition ex_draws :: "real \<Rightarrow> real \<Rightarrow> FitnessDraws" where
  "ex_draws r c =
     \<lparr> r_overall = r, r_codeQuality = c, r_performance = c, r_reliability = c,
       r_userSatisfaction = c, r_resourceEfficiency = c, r_now = 0 \<rparr>"

definition ex_taskResult :: TaskResult where
  "ex_taskResult =
     \<lparr> success = True, error_defined = False,
       metrics = Some \<lparr> executionTime = 150, memoryUsed = 1000, qualityScore = Some 0.7 \<rparr> \<rparr>"

definition ex_evalEnv :: EvalEnv where
  "ex_evalEnv =
     \<lparr> execute = (\<lambda>task. Inr ex_taskResult), traceDuration = (\<lambda>task. 150),
       memoryPercentage = 50, cpuUsage = 10, eval_now = 1000 \<rparr>"


definition ex_entry :: "nat \<Rightarrow> ArchiveEntry" where
  "ex_entry i =
     \<lparr> entry_id = ''entry_'' @ string_of_nat i @ ''_x'', entry_parentId = None,
       agentSnapshot = \<lparr> snap_id = ''agent_1'', snap_type = Requirements,
                         snap_version = ''1.0.0'', snap_capabilities = [],
                         snap_generation = None, snap_timestamp = i \<rparr>,
       fitnessMetrics = ex_fitness 0.5, entry_timestamp = i,
       entry_reason = ''top performer'',
       entry_tags = [''requirements'', ''top performer''] \<rparr>"

definition ex_archive :: "nat \<Rightarrow> Archive" where
  "ex_archive n = (emptyArchive 0) \<lparr> entries := map ex_entry [0..<n] \<rparr>"

definition ex_cfg :: EvolutionConfig where
  "ex_cfg =
     \<lparr> populationSize = 4, crossoverRate = 0.5, elitismRate = 0.25,
       selectionStrategy = Rank, convergenceThreshold = 0.001 \<rparr>"

definition ex_genv :: GenEnv where
  "ex_genv =
     \<lparr> evalEnvs = (\<lambda>i. ex_evalEnv), selEnv = ex_selEnv,
       childIds = (\<lambda>i. (5, ''abc'')),
       mutateOutcome = (\<lambda>i a. Inr a),
       fitnessDraws = (\<lambda>i. ex_draws (1 / 2) 0),
       newPopId = ''pop_1'', newPopNow = 7,
       improvedDraw = 1 / 2, degradedDraw = 1 / 2,
       stopRequested = True \<rparr>"

definition ex_cycleEnv :: CycleEnv where
  "ex_cycleEnv =
     \<lparr> cycleIdSrc = (3, ''xyz''), startNow = 3, endNow = 9,
       gens = (\<lambda>g. ex_genv), archiveIds = (\<lambda>i. (9, ''e'' @ string_of_nat i)),
       archiveNow = (\<lambda>i. 9) \<rparr>"

definition ex_population :: Population where
  "ex_population =
     \<lparr> pop_id = ''pop_0'', pop_generation = 0,
       agents = [ex_member ''agent_2'' 0.9, ex_member ''agent_1'' 0.9,
                 ex_member ''agent_3'' 0.5, ex_member ''agent_4'' 0.4],
       statistics = \<lparr> stat_size = 4, averageFitness = 0.675, bestFitness = 0.9,
                      worstFitness = 0.4, diversity = 0, convergence = 0,
                      mutationSuccessRate = 0.5 \<rparr>,
       pop_timestamp = 0 \<rparr>"

definition ex_engine :: EvolutionEngine where
  "ex_engine =
     \<lparr> heap = [0 \<mapsto> ex_population], next_ref = 1, currentPopulation = Some 0,
       currentCycle = None,
       history = \<lparr> cycles = [], totalGenerations = 0, totalMutations = 0,
                    successfulMutations = 0 \<rparr>,
       isRunning = False, shouldStop = False, archive = emptyArchive 0 \<rparr>"

text \<open>
  The engine after its first cycle: \<open>evolve(1)\<close> on the initialized engine has returned.
\<close>

definition ex_engine_next :: EvolutionEngine where
  "ex_engine_next = snd (evolve ex_cfg defaultWeights ex_cycleEnv 1 ex_engine)"

section \<open>Invariants of the engine\<close>

text \<open>
  What the phases of a generation leave alone in the engine state and in the cycle.
\<close>

definition engine_frame :: "EvolutionEngine \<Rightarrow> EvolutionEngine \<Rightarrow> bool" where
  "engine_frame s s' \<longleftrightarrow>
     isRunning s' = isRunning s \<and>
     totalGenerations (history s') = totalGenerations (history s) \<and>
     cycles (history s') = cycles (history s)"

definition cycle_frame :: "EvolutionCycle \<Rightarrow> EvolutionCycle \<Rightarrow> bool" where
  "cycle_frame c c' \<longleftrightarrow>
     cycle_id c' = cycle_id c \<and> cycle_generation c' = cycle_generation c \<and>
     startTime c' = startTime c \<and> endTime c' = endTime c \<and>
     cycle_population c' = cycle_population c"

text \<open>
  An engine is ready for a cycle when its current population exists and consists of
  agents that still have their methods (as after \<open>initialize\<close>, where every agent is a
  \<open>BaseAgent\<close> instance), and every cycle of the history refers to a population.
\<close>

definition methods_at :: "nat \<Rightarrow> EvolutionEngine \<Rightarrow> bool" where
  "methods_at r s \<longleftrightarrow>
     (\<exists>p. heap s r = Some p \<and> (\<forall>m \<in> set (agents p). hasMethods (agent m)))"

definition history_refs :: "EvolutionEngine \<Rightarrow> bool" where
  "history_refs s \<longleftrightarrow>
     (\<forall>c \<in> set (cycles (history s)). \<exists>r. cycle_population c = Some r \<and> heap s r \<noteq> None)"

text \<open>
  What the generations of a cycle keep of the population the cycle started with: it
  is evaluated and sorted in place, so its agents and their number stay.
\<close>

definition members_at :: "nat \<Rightarrow> IAgent set \<Rightarrow> nat \<Rightarrow> EvolutionEngine \<Rightarrow> bool" where
  "members_at r A n s \<longleftrightarrow>
     (\<exists>p. heap s r = Some p \<and> agent ` set (agents p) = A \<and> length (agents p) = n)"

definition loop_inv :: "nat \<Rightarrow> IAgent set \<Rightarrow> nat \<Rightarrow> EvolutionEngine \<Rightarrow> bool" where
  "loop_inv r0 A n s \<longleftrightarrow>
     members_at r0 A n s \<and> r0 < next_ref s \<and>
     (\<exists>r. currentPopulation s = Some r \<and> r < next_ref s \<and> heap s r \<noteq> None) \<and>
     history_refs s"

definition engine_ready :: "EvolutionEngine \<Rightarrow> bool" where
  "engine_ready s \<longleftrightarrow>
     (\<exists>r. currentPopulation s = Some r \<and> r < next_ref s \<and> methods_at r s) \<and>
     history_refs s"

text \<open>
  The state a generation with offspring leaves: the current population holds a copy
  made by crossover or mutation, an object without the prototype methods, and has at
  most five members, so that the copy is among the five that \<open>archiveBestAgents\<close>
  archives.
\<close>

definition copy_in_population :: "EvolutionEngine \<Rightarrow> bool" where
  "copy_in_population s \<longleftrightarrow>
     (\<exists>r p. currentPopulation s = Some r \<and> r < next_ref s \<and> heap s r = Some p \<and>
            length (agents p) \<le> 5 \<and> (\<exists>m \<in> set (agents p). \<not> hasMethods (agent m)))"

text \<open>The generation counter of the current population: it counts the generations that ran.\<close>

definition currentGeneration :: "EvolutionEngine \<Rightarrow> nat option" where
  "currentGeneration s = map_option pop_generation (thePopulation s)"

section \<open>Double arithmetic: rounding\<close>

lemma rte_of_int: "rte (of_int n) = n"
  by (simp add: rte_def)

lemma rte_error: "\<bar>of_int (rte y) - y\<bar> \<le> 1 / 2"
  unfolding rte_def Let_def by (auto simp: abs_le_iff)

lemma rte_nonneg: "0 \<le> y \<Longrightarrow> 0 \<le> rte y"
  unfolding rte_def Let_def by auto

lemma rte_minus: "rte (- y) = - rte y"
proof (cases "y = of_int \<lfloor>y\<rfloor>")
  case True
  then obtain n where "y = of_int n" by metis
  then show ?thesis by (simp add: rte_def flip: of_int_minus)
next
  case False
  then have "of_int \<lfloor>y\<rfloor> < y" using of_int_floor_le [of y] by linarith
  then have fl: "\<lfloor>- y\<rfloor> = - \<lfloor>y\<rfloor> - 1"
    using floor_correct [of y] by (intro floor_unique) (simp_all, linarith+)
  show ?thesis
    unfolding rte_def Let_def fl
    by (auto simp: algebra_simps)
qed

lemma rte_eval: "of_int n - 1 / 2 < y \<Longrightarrow> y < of_int n + 1 / 2 \<Longrightarrow> rte y = n"
  unfolding rte_def Let_def by (auto; linarith)

lemma rte_tie: "y = of_int m + 1 / 2 \<Longrightarrow> rte y = (if even m then m else m + 1)"
proof -
  assume y: "y = of_int m + 1 / 2"
  have "\<lfloor>y\<rfloor> = m" unfolding y by linarith
  then show ?thesis unfolding rte_def Let_def by (simp add: y)
qed

lemma fl_0 [simp]: "fl 0 = 0"
  by (simp add: fl_def)

lemma fl_minus: "fl (- x) = - fl x"
  by (simp add: fl_def Let_def rte_minus)

lemma fl_nonneg: "0 \<le> x \<Longrightarrow> 0 \<le> fl x"
  by (simp add: fl_def Let_def rte_nonneg)

lemma fl_nonpos: "x \<le> 0 \<Longrightarrow> fl x \<le> 0"
  using fl_nonneg [of "- x"] by (simp add: fl_minus)

lemma fmul_nonneg: "0 \<le> x \<Longrightarrow> 0 \<le> y \<Longrightarrow> 0 \<le> fmul x y"
  by (simp add: fmul_def fl_nonneg)

lemma fmul_0_left [simp]: "fmul 0 y = 0"
  by (simp add: fmul_def)

lemma fmul_0_right [simp]: "fmul x 0 = 0"
  by (simp add: fmul_def)

lemma two_powr_of_int: "(2::real) powr real_of_int n = 2 powi n"
  by (simp add: powr_real_of_int')

lemma log_two_powi: "log 2 (2 powi n) = real_of_int n"
  unfolding two_powr_of_int [symmetric] by simp

lemma powi_le_abs:
  assumes "x \<noteq> 0"
  shows "2 powi \<lfloor>log 2 \<bar>x\<bar>\<rfloor> \<le> \<bar>x\<bar>"
proof -
  have "2 powr real_of_int \<lfloor>log 2 \<bar>x\<bar>\<rfloor> \<le> 2 powr log 2 \<bar>x\<bar>"
    by (intro powr_mono) auto
  also have "\<dots> = \<bar>x\<bar>" using assms by simp
  finally show ?thesis by (simp add: powr_real_of_int')
qed

lemma floor_log_eq:
  assumes "2 powi e \<le> \<bar>x\<bar>" "\<bar>x\<bar> < 2 powi (e + 1)"
  shows "\<lfloor>log 2 \<bar>x\<bar>\<rfloor> = e"
proof -
  have pos: "0 < \<bar>x\<bar>" using assms(1) by (smt (verit) zero_less_power_int)
  have "2 powr real_of_int e \<le> \<bar>x\<bar>" "\<bar>x\<bar> < 2 powr real_of_int (e + 1)"
    using assms unfolding two_powr_of_int by auto
  then show ?thesis
    using pos floor_log_eq_powr_iff [of "\<bar>x\<bar>" 2 e] by simp
qed

lemma floor_log_less:
  assumes "x \<noteq> 0" "\<bar>x\<bar> < 2 powi n"
  shows "\<lfloor>log 2 \<bar>x\<bar>\<rfloor> < n"
proof -
  have "log 2 \<bar>x\<bar> < log 2 (2 powi n)"
    using assms by (intro log_less) auto
  also have "\<dots> = of_int n" by (simp add: log_two_powi)
  finally show ?thesis by linarith
qed

text \<open>
  How \<open>fl\<close> is evaluated at a number whose binary exponent \<open>e\<close> is known.
\<close>

lemma fl_eval:
  assumes "2 powi e \<le> \<bar>x\<bar>" "\<bar>x\<bar> < 2 powi (e + 1)"
    and "q = max (e - 52) (- 1074)" "rte (x / 2 powi q) = n"
  shows "fl x = 2 powi q * of_int n"
proof -
  have "x \<noteq> 0" using assms(1) by (smt (verit) zero_less_power_int)
  then show ?thesis
    using floor_log_eq [OF assms(1,2)] assms(3,4) by (simp add: fl_def)
qed

text \<open>
  A double is left as it is: a number \<open>k * 2 powi p\<close> with \<open>\<bar>k\<bar> < 2 ^ 53\<close> and
  \<open>- 1074 \<le> p\<close>.
\<close>

lemma fl_exact:
  assumes "x = of_int k * 2 powi p" "\<bar>k\<bar> < 2 ^ 53" "- 1074 \<le> p"
  shows "fl x = x"
proof (cases "x = 0")
  case True
  then show ?thesis by (simp add: fl_def)
next
  case False
  define q where "q = max (\<lfloor>log 2 \<bar>x\<bar>\<rfloor> - 52) (- 1074)"
  have "\<bar>x\<bar> = of_int \<bar>k\<bar> * 2 powi p" by (simp add: assms(1) abs_mult)
  also have "\<dots> < 2 ^ 53 * 2 powi p"
    using assms(2)
    by (intro mult_strict_right_mono)
       (auto simp: of_int_less_iff [where 'a = real, symmetric] simp del: of_int_less_iff)
  also have "\<dots> = 2 powi (53 + p)" by (simp add: power_int_add)
  finally have "\<lfloor>log 2 \<bar>x\<bar>\<rfloor> < 53 + p" using False by (intro floor_log_less)
  then have qp: "q \<le> p" using assms(3) by (simp add: q_def)
  have "x / 2 powi q = of_int k * 2 powi (p - q)"
    by (simp add: assms(1) power_int_diff)
  also have "\<dots> = of_int (k * 2 ^ nat (p - q))"
    using qp by (simp add: power_int_def)
  finally have "rte (x / 2 powi q) = k * 2 ^ nat (p - q)" by (simp only: rte_of_int)
  then have "fl x = 2 powi q * (of_int k * 2 powi (p - q))"
    using False qp by (simp add: fl_def q_def [symmetric] power_int_def)
  also have "\<dots> = x" by (simp add: assms(1) power_int_diff)
  finally show ?thesis .
qed

lemma fl_of_nat: "n < 2 ^ 53 \<Longrightarrow> fl (real n) = real n"
  by (rule fl_exact [where k = "int n" and p = 0]) (simp_all add: )

lemma abs_less_powi:
  assumes "x \<noteq> 0"
  shows "\<bar>x\<bar> < 2 powi (\<lfloor>log 2 \<bar>x\<bar>\<rfloor> + 1)"
proof -
  have "log 2 \<bar>x\<bar> < real_of_int (\<lfloor>log 2 \<bar>x\<bar>\<rfloor> + 1)" by linarith
  then have "2 powr log 2 \<bar>x\<bar> < 2 powr real_of_int (\<lfloor>log 2 \<bar>x\<bar>\<rfloor> + 1)"
    by (intro powr_less_mono) auto
  then show ?thesis using assms unfolding two_powr_of_int by simp
qed

lemma rte_bound:
  assumes "\<bar>y\<bar> < of_int N"
  shows "\<bar>rte y\<bar> \<le> N"
proof -
  have "\<bar>of_int (rte y) - y\<bar> \<le> 1 / 2" by (rule rte_error)
  then have "\<bar>real_of_int (rte y)\<bar> < of_int N + 1 / 2" using assms by linarith
  then have "\<bar>real_of_int (rte y)\<bar> < real_of_int (N + 1)" by simp
  then have "\<bar>rte y\<bar> < N + 1"
    by (metis of_int_abs of_int_less_iff)
  then show ?thesis by simp
qed

text \<open>Rounding a double again leaves it as it is.\<close>

lemma fl_idem: "fl (fl x) = fl x"
proof (cases "x = 0")
  case True
  then show ?thesis by simp
next
  case False
  define e where "e = \<lfloor>log 2 \<bar>x\<bar>\<rfloor>"
  define q where "q = max (e - 52) (- 1074)"
  define n where "n = rte (x / 2 powi q)"
  have fx: "fl x = of_int n * 2 powi q"
    using False by (simp add: fl_def e_def q_def n_def Let_def)
  have q: "- 1074 \<le> q" "e - 52 \<le> q" by (simp_all add: q_def)
  have "\<bar>x\<bar> < 2 powi (e + 1)" unfolding e_def by (rule abs_less_powi [OF False])
  also have "\<dots> \<le> 2 powi (q + 53)" using q(2) by (intro power_int_increasing) simp_all
  also have "\<dots> = 2 powi q * 2 ^ 53" by (simp add: power_int_add)
  finally have "\<bar>x\<bar> / 2 powi q < 2 ^ 53" by (simp add: field_simps)
  then have "\<bar>x / 2 powi q\<bar> < of_int (2 ^ 53)" by simp
  then have nb: "\<bar>n\<bar> \<le> 2 ^ 53" unfolding n_def by (rule rte_bound)
  show ?thesis
  proof (cases "\<bar>n\<bar> < 2 ^ 53")
    case True
    show ?thesis unfolding fx using True q(1) by (intro fl_exact [where k = n and p = q]) simp_all
  next
    case False
    with nb have "\<bar>n\<bar> = 2 ^ 53" by simp
    then have "n = 2 ^ 53 \<or> n = - (2 ^ 53)" by linarith
    then have "of_int n * 2 powi q = of_int (n div 2) * (2::real) powi (q + 1)"
      by (auto simp: power_int_add)
    moreover have "\<bar>n div 2\<bar> < 2 ^ 53" using \<open>n = 2 ^ 53 \<or> n = - (2 ^ 53)\<close> by auto
    ultimately show ?thesis
      unfolding fx using q(1) by (intro fl_exact [where k = "n div 2" and p = "q + 1"]) simp_all
  qed
qed

text \<open>
  The rounding error: half a unit in the last place, that is a relative error of at
  most \<open>2 ^ - 53\<close>, or \<open>2 powi - 1075\<close> in the subnormal range.
\<close>

lemma fl_error_ulp:
  assumes "x \<noteq> 0"
  shows "\<bar>fl x - x\<bar> \<le> 2 powi (max (\<lfloor>log 2 \<bar>x\<bar>\<rfloor> - 52) (- 1074)) / 2"
proof -
  define q where "q = max (\<lfloor>log 2 \<bar>x\<bar>\<rfloor> - 52) (- 1074)"
  define u :: real where "u = 2 powi q"
  have u: "0 < u" by (simp add: u_def)
  have "fl x - x = u * (of_int (rte (x / u)) - x / u)"
    using assms u by (simp add: fl_def q_def [symmetric] u_def [symmetric] algebra_simps)
  then have "\<bar>fl x - x\<bar> = u * \<bar>of_int (rte (x / u)) - x / u\<bar>"
    using u by (simp add: abs_mult)
  also have "\<dots> \<le> u * (1 / 2)"
    using u rte_error [of "x / u"] by (intro mult_left_mono) auto
  finally show ?thesis by (simp add: u_def q_def)
qed

lemma subnormal_half_ulp_pos: "0 < subnormal_half_ulp"
  by (simp add: subnormal_half_ulp_def)

lemma fl_error:
  "\<bar>fl x - x\<bar> \<le> \<bar>x\<bar> / 2 ^ 53 + subnormal_half_ulp"
proof (cases "x = 0")
  case True
  then show ?thesis using subnormal_half_ulp_pos by (simp add: fl_def)
next
  case False
  define e where "e = \<lfloor>log 2 \<bar>x\<bar>\<rfloor>"
  have le: "2 powi e \<le> \<bar>x\<bar>" unfolding e_def by (rule powi_le_abs [OF False])
  have a: "2 powi (e - 52) / 2 \<le> \<bar>x\<bar> / 2 ^ 53"
  proof -
    have "(2::real) powi (e - 52) / 2 = 2 powi e / 2 ^ 53"
      by (simp add: power_int_diff)
    then show ?thesis using le by (simp add: divide_right_mono)
  qed
  have b: "(2::real) powi (- 1074) / 2 = subnormal_half_ulp"
    by (simp add: power_int_minus subnormal_half_ulp_def)
  have "(2::real) powi (max (e - 52) (- 1074)) / 2 \<le> \<bar>x\<bar> / 2 ^ 53 + subnormal_half_ulp"
  proof (cases "e - 52 \<le> - 1074")
    case True
    then have "max (e - 52) (- 1074) = - 1074" by simp
    then show ?thesis using b by simp
  next
    case False
    then have "max (e - 52) (- 1074) = e - 52" by simp
    then show ?thesis using a subnormal_half_ulp_pos by (simp add: add_increasing2)
  qed
  then show ?thesis using fl_error_ulp [OF False] unfolding e_def by linarith
qed

lemma fl_error_normal:
  assumes "2 powi (- 1022) \<le> \<bar>x\<bar>"
  shows "\<bar>fl x - x\<bar> \<le> \<bar>x\<bar> / 2 ^ 53"
proof -
  have nz: "x \<noteq> 0" using assms by (smt (verit) zero_less_power_int)
  define e where "e = \<lfloor>log 2 \<bar>x\<bar>\<rfloor>"
  have le: "2 powi e \<le> \<bar>x\<bar>" unfolding e_def by (rule powi_le_abs [OF nz])
  have "log 2 (2 powi (- 1022)) \<le> log 2 \<bar>x\<bar>"
    using assms by (intro log_mono) auto
  then have "real_of_int (- 1022) \<le> log 2 \<bar>x\<bar>" by (simp only: log_two_powi)
  then have "- 1022 \<le> e" unfolding e_def by (simp add: le_floor_iff)
  then have m: "max (e - 52) (- 1074) = e - 52" by simp
  have "(2::real) powi (e - 52) / 2 = 2 powi e / 2 ^ 53"
    by (simp add: power_int_diff)
  then have "(2::real) powi (e - 52) / 2 \<le> \<bar>x\<bar> / 2 ^ 53"
    using le by (simp add: divide_right_mono)
  then show ?thesis using fl_error_ulp [OF nz] m unfolding e_def by simp
qed

text \<open>
  The error of a sum and of a product, from the errors of the operands.
\<close>

lemma subnormal_half_ulp_small: "subnormal_half_ulp \<le> 1 / 2 ^ 60"
proof -
  have "(2::real) powi (- 1075) \<le> 2 powi (- 60)"
    by (rule power_int_increasing) simp_all
  then show ?thesis by (simp add: subnormal_half_ulp_def power_int_minus inverse_eq_divide)
qed

lemma fl_approx:
  assumes "\<bar>x' - x\<bar> \<le> ex" "\<bar>x\<bar> \<le> X"
  shows "\<bar>fl x' - x\<bar> \<le> ex + (X + ex) / 2 ^ 53 + subnormal_half_ulp"
    and "\<bar>fl x'\<bar> \<le> X + ex + (X + ex) / 2 ^ 53 + subnormal_half_ulp"
proof -
  have a: "\<bar>x'\<bar> \<le> X + ex" using assms by linarith
  have b: "\<bar>fl x' - x'\<bar> \<le> \<bar>x'\<bar> / 2 ^ 53 + subnormal_half_ulp" by (rule fl_error)
  have c: "\<bar>x'\<bar> / 2 ^ 53 \<le> (X + ex) / 2 ^ 53" using a by (simp add: divide_right_mono)
  show "\<bar>fl x' - x\<bar> \<le> ex + (X + ex) / 2 ^ 53 + subnormal_half_ulp"
    using assms(1) b c by linarith
  show "\<bar>fl x'\<bar> \<le> X + ex + (X + ex) / 2 ^ 53 + subnormal_half_ulp"
    using a b c by linarith
qed

lemma fadd_error:
  assumes "\<bar>x' - x\<bar> \<le> ex" "\<bar>y' - y\<bar> \<le> ey" "\<bar>x\<bar> \<le> X" "\<bar>y\<bar> \<le> Y"
  shows "\<bar>fadd x' y' - (x + y)\<bar> \<le> ex + ey + 3 * (X + Y + ex + ey) / 2 ^ 53 + 4 * subnormal_half_ulp"
proof -
  define h where "h = subnormal_half_ulp"
  define S where "S = X + Y + ex + ey"
  have h: "0 \<le> h" unfolding h_def using subnormal_half_ulp_pos by simp
  have S: "0 \<le> S" unfolding S_def using assms by linarith
  note ax = fl_approx [OF assms(1,3), folded h_def]
  note ay = fl_approx [OF assms(2,4), folded h_def]
  have s: "\<bar>fl x' + fl y'\<bar> \<le> S + S / 2 ^ 53 + 2 * h"
    using ax(2) ay(2) unfolding S_def by (simp add: add_divide_distrib)
  have "\<bar>fl (fl x' + fl y') - (fl x' + fl y')\<bar> \<le> \<bar>fl x' + fl y'\<bar> / 2 ^ 53 + h"
    unfolding h_def by (rule fl_error)
  moreover have "\<bar>fl x' + fl y'\<bar> / 2 ^ 53 \<le> (S + S / 2 ^ 53 + 2 * h) / 2 ^ 53"
    using s by (simp add: divide_right_mono)
  moreover have "(S + S / 2 ^ 53 + 2 * h) / 2 ^ 53 \<le> 2 * S / 2 ^ 53 + h"
    using S h by (simp add: field_simps)
  ultimately have r: "\<bar>fl (fl x' + fl y') - (fl x' + fl y')\<bar> \<le> 2 * S / 2 ^ 53 + 2 * h"
    by linarith
  have "\<bar>fadd x' y' - (x + y)\<bar> \<le> ex + ey + 3 * S / 2 ^ 53 + 4 * h"
    using ax(1) ay(1) r unfolding fadd_def S_def
    by (simp add: add_divide_distrib)
  then show ?thesis unfolding S_def h_def .
qed

lemma fsub_fadd: "fsub x y = fadd x (- y)"
  by (simp add: fsub_def fadd_def fl_minus)

lemma fsub_error:
  assumes "\<bar>x' - x\<bar> \<le> ex" "\<bar>y' - y\<bar> \<le> ey" "\<bar>x\<bar> \<le> X" "\<bar>y\<bar> \<le> Y"
  shows "\<bar>fsub x' y' - (x - y)\<bar> \<le> ex + ey + 3 * (X + Y + ex + ey) / 2 ^ 53 + 4 * subnormal_half_ulp"
  using fadd_error [of x' x ex "- y'" "- y" ey X Y] assms by (simp add: fsub_fadd)

lemma fmul_weight_error:
  assumes "2 powi (- 1022) \<le> w" "w \<le> 1"
  shows "\<bar>fmul c w - c * w\<bar> \<le> 5 * (\<bar>c\<bar> * w) / 2 ^ 53 + 4 * subnormal_half_ulp"
proof -
  define h where "h = subnormal_half_ulp"
  define a where "a = fl c"
  define b where "b = fl w"
  define T where "T = \<bar>c\<bar> * w"
  have h: "0 \<le> h" unfolding h_def using subnormal_half_ulp_pos by simp
  have w0: "0 < w" using assms(1) by (smt (verit) zero_less_power_int)
  have T: "0 \<le> T" unfolding T_def using w0 by simp
  have E1: "\<bar>a - c\<bar> \<le> \<bar>c\<bar> / 2 ^ 53 + h" unfolding a_def h_def by (rule fl_error)
  have "\<bar>fl w - w\<bar> \<le> \<bar>w\<bar> / 2 ^ 53" using assms(1) w0 by (intro fl_error_normal) simp
  then have E2: "\<bar>b - w\<bar> \<le> w / 2 ^ 53" using w0 by (simp add: b_def)
  have b0: "0 \<le> b" unfolding b_def using w0 by (intro fl_nonneg) simp
  have b1: "b \<le> w + w / 2 ^ 53" using E2 by linarith
  have hw: "h * w \<le> h" using h assms(2) by (simp add: mult_left_le)
  have "\<bar>(a - c) * b\<bar> = \<bar>a - c\<bar> * b" using b0 by (simp add: abs_mult)
  also have "\<dots> \<le> (\<bar>c\<bar> / 2 ^ 53 + h) * (w + w / 2 ^ 53)"
    using E1 b1 b0 h by (intro mult_mono) auto
  also have "\<dots> = T / 2 ^ 53 + T / 2 ^ 106 + h * w + h * w / 2 ^ 53"
    by (simp add: T_def field_simps)
  also have "\<dots> \<le> 2 * T / 2 ^ 53 + 2 * h"
  proof -
    have "T / 2 ^ 106 \<le> T / 2 ^ 53" using T by (simp add: field_simps)
    moreover have "h * w / 2 ^ 53 \<le> h * w"
      using h w0 by (simp add: field_simps)
    ultimately show ?thesis using hw by linarith
  qed
  finally have P1: "\<bar>(a - c) * b\<bar> \<le> 2 * T / 2 ^ 53 + 2 * h" .
  have "\<bar>c * (b - w)\<bar> = \<bar>c\<bar> * \<bar>b - w\<bar>" by (simp add: abs_mult)
  also have "\<dots> \<le> \<bar>c\<bar> * (w / 2 ^ 53)" using E2 by (intro mult_left_mono) auto
  also have "\<dots> = T / 2 ^ 53" by (simp add: T_def)
  finally have P2: "\<bar>c * (b - w)\<bar> \<le> T / 2 ^ 53" .
  have D: "a * b - c * w = (a - c) * b + c * (b - w)" by (simp add: algebra_simps)
  have Q: "\<bar>a * b - c * w\<bar> \<le> 3 * T / 2 ^ 53 + 2 * h"
    unfolding D using P1 P2 by linarith
  have cw: "\<bar>c * w\<bar> = T" using w0 by (simp add: T_def abs_mult)
  have AB: "\<bar>a * b\<bar> \<le> T + 3 * T / 2 ^ 53 + 2 * h" using Q cw by linarith
  have "\<bar>fl (a * b) - a * b\<bar> \<le> \<bar>a * b\<bar> / 2 ^ 53 + h" unfolding h_def by (rule fl_error)
  moreover have "\<bar>a * b\<bar> / 2 ^ 53 \<le> (T + 3 * T / 2 ^ 53 + 2 * h) / 2 ^ 53"
    using AB by (simp add: divide_right_mono)
  moreover have "(T + 3 * T / 2 ^ 53 + 2 * h) / 2 ^ 53 \<le> 2 * T / 2 ^ 53 + h"
    using T h by (simp add: field_simps)
  ultimately have R: "\<bar>fl (a * b) - a * b\<bar> \<le> 2 * T / 2 ^ 53 + 2 * h" by linarith
  have "\<bar>fl (a * b) - c * w\<bar> \<le> 5 * T / 2 ^ 53 + 4 * h" using Q R by linarith
  then show ?thesis unfolding fmul_def a_def b_def T_def h_def .
qed

lemma fl_error_small:
  assumes "\<bar>x\<bar> \<le> 2"
  shows "\<bar>fl x - x\<bar> \<le> 1 / 2 ^ 51"
proof -
  have "\<bar>fl x - x\<bar> \<le> \<bar>x\<bar> / 2 ^ 53 + subnormal_half_ulp" by (rule fl_error)
  moreover have "\<bar>x\<bar> / 2 ^ 53 \<le> 2 / 2 ^ 53" using assms by (simp add: divide_right_mono)
  moreover have "(2::real) / 2 ^ 53 + 1 / 2 ^ 60 \<le> 1 / 2 ^ 51" by simp
  ultimately show ?thesis using subnormal_half_ulp_small by linarith
qed

lemma fmul_error_small:
  assumes "\<bar>x\<bar> \<le> 1" "\<bar>y\<bar> \<le> 1"
  shows "\<bar>fmul x y - x * y\<bar> \<le> 1 / 2 ^ 49"
proof -
  define a where "a = fl x"
  define b where "b = fl y"
  have E1: "\<bar>a - x\<bar> \<le> 1 / 2 ^ 51" unfolding a_def using assms(1) by (intro fl_error_small) simp
  have E2: "\<bar>b - y\<bar> \<le> 1 / 2 ^ 51" unfolding b_def using assms(2) by (intro fl_error_small) simp
  have n1: "(1::real) / 2 ^ 51 \<le> 1" by simp
  have n2: "(1::real) / 2 ^ 50 + 1 / 2 ^ 51 \<le> 1" by simp
  have n3: "(1::real) / 2 ^ 50 + 1 / 2 ^ 51 + 1 / 2 ^ 51 \<le> 1 / 2 ^ 49" by simp
  have b2: "\<bar>b\<bar> \<le> 2" using E2 assms(2) n1 by linarith
  have "\<bar>(a - x) * b\<bar> = \<bar>a - x\<bar> * \<bar>b\<bar>" by (simp add: abs_mult)
  also have "\<dots> \<le> 1 / 2 ^ 51 * 2" using E1 b2 by (intro mult_mono) auto
  finally have P1: "\<bar>(a - x) * b\<bar> \<le> 1 / 2 ^ 50" by simp
  have "\<bar>x * (b - y)\<bar> = \<bar>x\<bar> * \<bar>b - y\<bar>" by (simp add: abs_mult)
  also have "\<dots> \<le> 1 * (1 / 2 ^ 51)" using E2 assms(1) by (intro mult_mono) auto
  finally have P2: "\<bar>x * (b - y)\<bar> \<le> 1 / 2 ^ 51" by simp
  have D: "a * b - x * y = (a - x) * b + x * (b - y)" by (simp add: algebra_simps)
  have Q: "\<bar>a * b - x * y\<bar> \<le> 1 / 2 ^ 50 + 1 / 2 ^ 51" unfolding D using P1 P2 by linarith
  have "\<bar>x * y\<bar> = \<bar>x\<bar> * \<bar>y\<bar>" by (simp add: abs_mult)
  also have "\<dots> \<le> 1 * 1" using assms by (intro mult_mono) auto
  finally have xy: "\<bar>x * y\<bar> \<le> 1" by simp
  have "\<bar>a * b\<bar> \<le> 2" using Q xy n2 by linarith
  then have R: "\<bar>fl (a * b) - a * b\<bar> \<le> 1 / 2 ^ 51" by (rule fl_error_small)
  have "\<bar>fl (a * b) - x * y\<bar> \<le> 1 / 2 ^ 49" using Q R n3 by linarith
  then show ?thesis unfolding fmul_def a_def b_def .
qed

section \<open>Array primitives: basic facts\<close>

lemma length_js_slice0:
  "length (js_slice0 xs n) = (if n < 0 then nat (int (length xs) + n) else min (nat n) (length xs))"
  by (auto simp: js_slice0_def)

lemma js_slice0_nonneg: "0 \<le> n \<Longrightarrow> js_slice0 xs n = take (nat n) xs"
  by (simp add: js_slice0_def)

lemma length_sort_desc [simp]: "length (sort_desc key xs) = length xs"
  by (simp add: sort_desc_def)

lemma set_sort_desc [simp]: "set (sort_desc key xs) = set xs"
  by (simp add: sort_desc_def)

lemma length_shuffle [simp]: "length (shuffle ks xs) = length xs"
proof (induction ks xs rule: shuffle.induct)
  case (3 k ks x xs)
  let ?ys = "x # xs"
  let ?i = "k mod length ?ys"
  have i: "?i < length ?ys" by simp
  have "length (take ?i ?ys @ drop (Suc ?i) ?ys) = length xs"
    using i by (simp del: take_Suc_Cons drop_Suc_Cons) 
  with 3 show ?case by (simp add: Let_def del: take_Suc_Cons drop_Suc_Cons)
qed simp_all

section \<open>Selection: how many agents come back\<close>

lemma tournament_nonempty:
  "as \<noteq> [] \<Longrightarrow> selectRandomAgents perm as (tournamentSize as) \<noteq> []"
proof -
  assume "as \<noteq> []"
  then have "length (shuffle perm as) > 0" by simp
  moreover have "tournamentSize as \<ge> 2" by (simp add: tournamentSize_def)
  ultimately have "length (selectRandomAgents perm as (tournamentSize as)) > 0"
    by (simp add: selectRandomAgents_def length_js_slice0)
  then show ?thesis by simp
qed

lemma tournament_winner_ok: "t \<noteq> [] \<Longrightarrow> \<exists>w. tournament_winner t = Inr w"
  by (cases t) (simp_all add: tournament_winner_def)

lemma tournament_loop_length:
  "as \<noteq> [] \<Longrightarrow> \<exists>sel. tournament_loop ps as is selected = Inr sel \<and> length sel = length selected + length is"
proof (induction "is" arbitrary: selected)
  case Nil
  then show ?case by simp
next
  case (Cons i "is")
  from tournament_winner_ok [OF tournament_nonempty [OF Cons.prems]]
  obtain w where w: "tournament_winner (selectRandomAgents (ps i) as (tournamentSize as)) = Inr w"
    by blast
  from Cons.IH [OF Cons.prems, of "selected @ [agent w]"] w show ?case by auto
qed

lemma tournamentSelection_length:
  "as \<noteq> [] \<or> count \<le> 0 \<Longrightarrow> \<exists>sel. tournamentSelection ps as count = Inr sel \<and> length sel = nat count"
proof (cases "as = []")
  case True
  assume "as \<noteq> [] \<or> count \<le> 0"
  with True have "nat count = 0" by simp
  then show ?thesis by (simp add: tournamentSelection_def)
next
  case False
  from tournament_loop_length [OF False, of ps "[0..<nat count]" "[]"]
  show ?thesis by (simp add: tournamentSelection_def)
qed




lemma rank_length:
  "0 \<le> count \<Longrightarrow> length (rankSelection as count) = min (nat count) (length as)"
  by (simp add: rankSelection_def length_js_slice0)

lemma roulette_loop_zero:
  "roulette_walk 0 as = Some a \<Longrightarrow> totalFitness as = 0 \<Longrightarrow>
   roulette_loop ds as is selected = selected @ replicate (length is) a"
  by (induction "is" arbitrary: selected) (simp_all add: replicate_app_Cons_same)

text \<open>
  The walk that starts at 0 mirrors the sum \<open>reduce\<close> computes: after each member
  \<open>randomValue\<close> is the negated running total, rounding included, so the walk stops at
  the first member where the running total is not negative.
\<close>

lemma fsub_minus_fadd: "fsub (- z) f = - fadd z f"
proof -
  have "- fl z - fl f = - (fl z + fl f)" by simp
  then show ?thesis by (simp only: fsub_def fadd_def fl_minus)
qed

lemma totalFitness_Cons:
  "foldl (\<lambda>sum a. fadd sum (overall (fitness a))) z (m # ms)
     = foldl (\<lambda>sum a. fadd sum (overall (fitness a))) (fadd z (overall (fitness m))) ms"
  by simp

lemma roulette_walk_running:
  "roulette_walk (- z) as =
     (if \<exists>k < length as. 0 \<le> foldl (\<lambda>sum a. fadd sum (overall (fitness a))) z (take (Suc k) as)
      then Some (agent (as ! (LEAST k. k < length as \<and>
                   0 \<le> foldl (\<lambda>sum a. fadd sum (overall (fitness a))) z (take (Suc k) as))))
      else None)"
proof (induction as arbitrary: z)
  case Nil
  then show ?case by simp
next
  case (Cons m ms)
  let ?F = "\<lambda>z xs. foldl (\<lambda>sum a. fadd sum (overall (fitness a))) z xs"
  let ?z' = "fadd z (overall (fitness m))"
  have step: "?F z (take (Suc k) (m # ms)) = ?F ?z' (take k ms)" for k by simp
  show ?case
  proof (cases "0 \<le> ?z'")
    case True
    have P0: "0 < length (m # ms) \<and> 0 \<le> ?F z (take (Suc 0) (m # ms))" using True by simp
    then have "(LEAST k. k < length (m # ms) \<and> 0 \<le> ?F z (take (Suc k) (m # ms))) = 0"
      by (intro Least_equality) auto
    moreover have "\<exists>k < length (m # ms). 0 \<le> ?F z (take (Suc k) (m # ms))"
      using P0 by blast
    ultimately show ?thesis using True by (simp add: fsub_minus_fadd Let_def del: foldl_Cons take_Suc_Cons)
  next
    case False
    have ex: "(\<exists>k < length (m # ms). 0 \<le> ?F z (take (Suc k) (m # ms)))
              \<longleftrightarrow> (\<exists>k < length ms. 0 \<le> ?F ?z' (take (Suc k) ms))"
    proof
      assume "\<exists>k < length (m # ms). 0 \<le> ?F z (take (Suc k) (m # ms))"
      then obtain k where k: "k < length (m # ms)" "0 \<le> ?F z (take (Suc k) (m # ms))" by blast
      with False obtain k' where "k = Suc k'" by (cases k) auto
      with k show "\<exists>k < length ms. 0 \<le> ?F ?z' (take (Suc k) ms)" by auto
    next
      assume "\<exists>k < length ms. 0 \<le> ?F ?z' (take (Suc k) ms)"
      then obtain k where "k < length ms" "0 \<le> ?F ?z' (take (Suc k) ms)" by blast
      then have "Suc k < length (m # ms) \<and> 0 \<le> ?F z (take (Suc (Suc k)) (m # ms))" by simp
      then show "\<exists>k < length (m # ms). 0 \<le> ?F z (take (Suc k) (m # ms))" by blast
    qed
    have walk: "roulette_walk (- z) (m # ms) = roulette_walk (- ?z') ms"
      using False by (simp add: fsub_minus_fadd Let_def)
    show ?thesis
    proof (cases "\<exists>k < length ms. 0 \<le> ?F ?z' (take (Suc k) ms)")
      case no: False
      with ex walk Cons.IH [of ?z'] show ?thesis by (simp del: foldl_Cons take_Suc_Cons)
    next
      case yes: True
      let ?P = "\<lambda>k. k < length (m # ms) \<and> 0 \<le> ?F z (take (Suc k) (m # ms))"
      let ?Q = "\<lambda>k. k < length ms \<and> 0 \<le> ?F ?z' (take (Suc k) ms)"
      have P0: "\<not> ?P 0" using False by simp
      have PQ: "?P (Suc k) = ?Q k" for k by simp
      from yes obtain k0 where "?Q k0" by blast
      then have "?P (Suc k0)" by simp
      from Least_Suc [of ?P, OF this P0]
      have "(LEAST k. ?P k) = Suc (LEAST k. ?P (Suc k))" .
      also have "(LEAST k. ?P (Suc k)) = (LEAST k. ?Q k)" by (simp only: PQ)
      finally have "(m # ms) ! (LEAST k. ?P k) = ms ! (LEAST k. ?Q k)" by simp
      with yes ex walk Cons.IH [of ?z'] show ?thesis by (simp del: foldl_Cons take_Suc_Cons)
    qed
  qed
qed

section \<open>Selection: the claims\<close>


text \<open>
  The roundings of the roulette wheel on the members of fitness 0.03, 0.11 and 0.15
  with the draw \<open>1 - 2 ^ - 52\<close>: the three literals, the running total, the product
  with the draw, and the three subtractions of the walk.
\<close>

lemma fl_half: "fl (1 / 2) = 1 / 2"
  by (rule fl_exact [where k = 1 and p = "- 1"]) simp_all

lemma fl_1 [simp]: "fl 1 = 1"
  by (rule fl_exact [where k = 1 and p = 0]) simp_all

lemma fl_numeral [simp]: "(numeral k :: nat) < 2 ^ 53 \<Longrightarrow> fl (numeral k) = numeral k"
  using fl_of_nat [of "numeral k"] by simp























lemma roulette_zero_all:
  assumes "roulette_walk 0 as = Some a" and "totalFitness as = 0"
  shows "rouletteWheelSelection ds as cnt = replicate (nat cnt) a"
  using roulette_loop_zero [OF assms, of ds "[0..<nat cnt]" "[]"]
  by (simp add: rouletteWheelSelection_def)

text \<open>
  Claim C6, as the code has it. On a non-empty population of total fitness 0 the
  roulette wheel returns (the function is total) exactly \<open>count\<close> agents, and all of them
  are one and the same member of the population, whatever the random draws: the
  product \<open>Math.random() * 0\<close> is 0 and the walk stops at the first member where the
  running total of the fitness values is not negative, the first member of the array
  when its fitness is not negative. The running total is \<open>totalFitness\<close> of the initial
  segment, the sum as \<open>reduce\<close> computes it. There is no fall-back to a uniform choice.
\<close>

theorem roulette_zero_total:
  assumes "as \<noteq> []" and "totalFitness as = 0"
  shows "\<exists>k < length as.
           0 \<le> totalFitness (take (Suc k) as)
           \<and> (\<forall>j < k. totalFitness (take (Suc j) as) < 0)
           \<and> (\<forall>ds cnt. rouletteWheelSelection ds as cnt = replicate (nat cnt) (agent (as ! k))
                     \<and> length (rouletteWheelSelection ds as cnt) = nat cnt)
           \<and> (0 \<le> overall (fitness (hd as)) \<longrightarrow> k = 0)"
proof -
  let ?P = "\<lambda>k. k < length as \<and> 0 \<le> totalFitness (take (Suc k) as)"
  define k where "k = (LEAST k. ?P k)"
  have last: "?P (length as - 1)" using assms by (cases as) auto
  then have Pk: "?P k" unfolding k_def by (rule LeastI)
  have least: "\<forall>j < k. totalFitness (take (Suc j) as) < 0"
  proof (intro allI impI)
    fix j assume j: "j < k"
    then have "\<not> ?P j" unfolding k_def by (rule not_less_Least)
    moreover have "j < length as" using j Pk by simp
    ultimately show "totalFitness (take (Suc j) as) < 0" by simp
  qed
  have ex: "\<exists>k < length as. 0 \<le> foldl (\<lambda>sum a. fadd sum (overall (fitness a))) 0 (take (Suc k) as)"
    using last unfolding totalFitness_def by blast
  have "roulette_walk (- 0) as = Some (agent (as ! k))"
    unfolding roulette_walk_running [of 0 as] k_def totalFitness_def using ex by simp
  then have walk: "roulette_walk 0 as = Some (agent (as ! k))" by simp
  have sel: "\<forall>ds cnt. rouletteWheelSelection ds as cnt = replicate (nat cnt) (agent (as ! k))
                     \<and> length (rouletteWheelSelection ds as cnt) = nat cnt"
    using roulette_zero_all [OF walk assms(2)] by simp
  have first: "0 \<le> overall (fitness (hd as)) \<longrightarrow> k = 0"
  proof
    assume nn: "0 \<le> overall (fitness (hd as))"
    have "0 \<le> fl (fl (overall (fitness (hd as))))" using nn by (intro fl_nonneg)
    then have "?P 0" using assms(1) by (cases as) (simp_all add: totalFitness_def fadd_def)
    then show "k = 0" unfolding k_def by (intro Least_equality) auto
  qed
  from Pk least sel first show ?thesis by blast
qed

text \<open>
  Three members of fitness -0.5, 0.5 and 0: the running total is -0.5, 0, 0, and every
  draw selects the second member.
\<close>

theorem roulette_zero_total_witness:
  "ex_signedPop \<noteq> [] \<and> totalFitness ex_signedPop = 0 \<and>
   (\<forall>ds cnt. rouletteWheelSelection ds ex_signedPop cnt = replicate (nat cnt) (ex_agent ''agent_2''))"
proof -
  have ne: "ex_signedPop \<noteq> []" by (simp add: ex_signedPop_def)
  have z: "totalFitness ex_signedPop = 0"
    by (simp add: ex_signedPop_def totalFitness_def ex_member_def ex_fitness_def fadd_def
        fl_minus fl_half)
  have t0: "totalFitness (take (Suc 0) ex_signedPop) < 0"
    by (simp add: ex_signedPop_def totalFitness_def ex_member_def ex_fitness_def fadd_def
        fl_minus fl_half)
  have t1: "\<not> totalFitness (take (Suc 1) ex_signedPop) < 0"
    by (simp add: ex_signedPop_def totalFitness_def ex_member_def ex_fitness_def fadd_def
        fl_minus fl_half)
  from roulette_zero_total [OF ne z]
  obtain k where k: "0 \<le> totalFitness (take (Suc k) ex_signedPop)"
      "\<forall>j < k. totalFitness (take (Suc j) ex_signedPop) < 0"
      "\<forall>ds cnt. rouletteWheelSelection ds ex_signedPop cnt
                  = replicate (nat cnt) (agent (ex_signedPop ! k))"
    by blast
  have "k \<noteq> 0" using k(1) t0 by (intro notI) simp
  moreover have "\<not> 1 < k" using k(2) t1 by blast
  ultimately have "k = 1" by simp
  then have "agent (ex_signedPop ! k) = ex_agent ''agent_2''"
    by (simp add: ex_signedPop_def ex_member_def)
  with k(3) ne z show ?thesis by simp
qed

text \<open>
  Two members of fitness 0 and the draws 0.1 and 0.9: a uniform choice takes the first
  member and then the second, the roulette wheel takes the first member twice.
\<close>

theorem roulette_uniform_counterexample:
  "rouletteWheelSelection ex_zeroDraws ex_zeroPop 2 = [ex_agent ''agent_1'', ex_agent ''agent_1'']
   \<and> map (spec_uniformChoice ex_zeroPop) [ex_zeroDraws 0, ex_zeroDraws 1]
       = [ex_agent ''agent_1'', ex_agent ''agent_2'']
   \<and> ex_agent ''agent_1'' \<noteq> ex_agent ''agent_2''"
proof -
  have "[0..<nat 2] = [0, 1]" by (simp add: upt_rec)
  then have "rouletteWheelSelection ex_zeroDraws ex_zeroPop 2 = [ex_agent ''agent_1'', ex_agent ''agent_1'']"
    by (simp add: rouletteWheelSelection_def ex_zeroPop_def totalFitness_def ex_member_def
        ex_fitness_def Let_def fadd_def fsub_def)
  moreover have "map (spec_uniformChoice ex_zeroPop) [ex_zeroDraws 0, ex_zeroDraws 1]
       = [ex_agent ''agent_1'', ex_agent ''agent_2'']"
    by (simp add: spec_uniformChoice_def ex_zeroPop_def ex_zeroDraws_def ex_member_def)
  moreover have "ex_agent ''agent_1'' \<noteq> ex_agent ''agent_2''"
    by (simp add: ex_agent_def)
  ultimately show ?thesis by blast
qed

section \<open>Crossover\<close>

lemma generateChildId_prefix: "take 6 (generateChildId src) = ''child_''"
  by (simp add: generateChildId_def)

lemma generateChildId_fresh: "take 6 i \<noteq> ''child_'' \<Longrightarrow> generateChildId src \<noteq> i"
  using generateChildId_prefix by metis

lemma js_slice0_one: "js_slice0 xs 1 = take 1 xs"
  by (simp add: js_slice0_def)

lemma take_one_hd: "xs \<noteq> [] \<Longrightarrow> take (Suc 0) xs = [hd xs]"
  by (cases xs) simp_all

text \<open>
  Claim C8, as the code has it. Crossover returns two children. A child has the
  capabilities of its primary parent followed by the first capability of the other
  parent, if that parent has one (so at most one capability is borrowed, and none from
  a parent without capabilities); its generation is the maximum of the parents'
  generations plus 1; its version is \<open>1.0.0\<close>; its type, state and creation times are
  the primary parent's, and its \<open>parentId\<close> is the primary parent's id. Its id is the
  generated string \<open>child_<time>_<random>\<close>, which differs from the id of every parent
  whose id does not begin with \<open>child_\<close>.
\<close>

theorem crossover_children:
  "\<exists>c1 c2. crossover src1 src2 p1 p2 = [c1, c2]
     \<and> capabilities c1 = capabilities p1 @ take 1 (capabilities p2)
     \<and> capabilities c2 = capabilities p2 @ take 1 (capabilities p1)
     \<and> (capabilities p2 \<noteq> [] \<longrightarrow> capabilities c1 = capabilities p1 @ [hd (capabilities p2)])
     \<and> (capabilities p1 \<noteq> [] \<longrightarrow> capabilities c2 = capabilities p2 @ [hd (capabilities p1)])
     \<and> meta_generation (metadata c1)
         = max (meta_generation (metadata p1)) (meta_generation (metadata p2)) + 1
     \<and> meta_generation (metadata c2)
         = max (meta_generation (metadata p1)) (meta_generation (metadata p2)) + 1
     \<and> agent_version c1 = ''1.0.0'' \<and> agent_version c2 = ''1.0.0''
     \<and> agent_type c1 = agent_type p1 \<and> agent_type c2 = agent_type p2
     \<and> agent_state c1 = agent_state p1 \<and> agent_state c2 = agent_state p2
     \<and> createdAt (metadata c1) = createdAt (metadata p1)
     \<and> createdAt (metadata c2) = createdAt (metadata p2)
     \<and> parentId (metadata c1) = Some (agent_id p1)
     \<and> parentId (metadata c2) = Some (agent_id p2)
     \<and> agent_id c1 = generateChildId src1 \<and> agent_id c2 = generateChildId src2
     \<and> (take 6 (agent_id p1) \<noteq> ''child_'' \<and> take 6 (agent_id p2) \<noteq> ''child_''
          \<longrightarrow> agent_id c1 \<notin> {agent_id p1, agent_id p2}
            \<and> agent_id c2 \<notin> {agent_id p1, agent_id p2})"
proof -
  let ?c1 = "createChild src1 p1 p2" and ?c2 = "createChild src2 p2 p1"
  have "crossover src1 src2 p1 p2 = [?c1, ?c2]" by (simp add: crossover_def)
  moreover have "capabilities ?c1 = capabilities p1 @ take 1 (capabilities p2)"
    "capabilities ?c2 = capabilities p2 @ take 1 (capabilities p1)"
    by (simp_all add: createChild_def js_slice0_one)
  moreover have "capabilities p2 \<noteq> [] \<longrightarrow> capabilities ?c1 = capabilities p1 @ [hd (capabilities p2)]"
    "capabilities p1 \<noteq> [] \<longrightarrow> capabilities ?c2 = capabilities p2 @ [hd (capabilities p1)]"
    by (simp_all add: createChild_def js_slice0_one take_one_hd)
  moreover have "meta_generation (metadata ?c1)
         = max (meta_generation (metadata p1)) (meta_generation (metadata p2)) + 1"
    "meta_generation (metadata ?c2)
         = max (meta_generation (metadata p1)) (meta_generation (metadata p2)) + 1"
    by (simp_all add: createChild_def max.commute)
  moreover have "agent_version ?c1 = ''1.0.0''" "agent_version ?c2 = ''1.0.0''"
    "agent_type ?c1 = agent_type p1" "agent_type ?c2 = agent_type p2"
    "agent_state ?c1 = agent_state p1" "agent_state ?c2 = agent_state p2"
    "createdAt (metadata ?c1) = createdAt (metadata p1)"
    "createdAt (metadata ?c2) = createdAt (metadata p2)"
    "parentId (metadata ?c1) = Some (agent_id p1)"
    "parentId (metadata ?c2) = Some (agent_id p2)"
    by (simp_all add: createChild_def)
  moreover have ids: "agent_id ?c1 = generateChildId src1" "agent_id ?c2 = generateChildId src2"
    by (simp_all add: createChild_def)
  moreover have "take 6 (agent_id p1) \<noteq> ''child_'' \<and> take 6 (agent_id p2) \<noteq> ''child_''
          \<longrightarrow> agent_id ?c1 \<notin> {agent_id p1, agent_id p2}
            \<and> agent_id ?c2 \<notin> {agent_id p1, agent_id p2}"
    unfolding ids using generateChildId_fresh by blast
  ultimately show ?thesis by blast
qed

theorem crossover_children_witness:
  "\<exists>c1 c2. crossover (5, ''abc'') (5, ''abd'')
              ((ex_agent ''agent_1'') \<lparr> capabilities := [ex_cap ''a''] \<rparr>)
              ((ex_agent ''agent_2'') \<lparr> capabilities := [ex_cap ''b''] \<rparr>) = [c1, c2]
     \<and> capabilities c1 = [ex_cap ''a'', ex_cap ''b'']
     \<and> capabilities c2 = [ex_cap ''b'', ex_cap ''a'']
     \<and> agent_id c1 \<notin> {''agent_1'', ''agent_2''}
     \<and> agent_id c2 \<notin> {''agent_1'', ''agent_2''}"
  using crossover_children [of "(5, ''abc'')" "(5, ''abd'')"
      "(ex_agent ''agent_1'') \<lparr> capabilities := [ex_cap ''a''] \<rparr>"
      "(ex_agent ''agent_2'') \<lparr> capabilities := [ex_cap ''b''] \<rparr>"]
  by (simp add: ex_agent_def) blast

text \<open>
  Two agents as \<open>createRandomAgent\<close> builds them have no capabilities; their children
  have none either, so no capability was borrowed.
\<close>

theorem crossover_borrow_counterexample:
  "map (\<lambda>c. length (capabilities c))
     (crossover (5, ''abc'') (5, ''abd'') (ex_agent ''agent_1'') (ex_agent ''agent_2''))
   = [0, 0]"
  by (simp add: crossover_def createChild_def js_slice0_def ex_agent_def)

section \<open>Fitness scores\<close>

lemma evaluate_cases:
  "evaluate w env a =
     (case evaluateComponents env a of
        Inl e \<Rightarrow> Inr (createMinimalFitness (eval_now env))
      | Inr c \<Rightarrow> Inr \<lparr> overall = calculateOverallFitness w c, components = c,
                       fs_timestamp = eval_now env \<rparr>)"
  by (simp add: evaluate_def try_catch_def split: sum.splits)

lemma evaluate_Inr: "\<exists>f. evaluate w env a = Inr f"
  by (simp add: evaluate_cases split: sum.splits)

lemma evaluateComponents_Inr:
  "agent_state a \<noteq> None \<Longrightarrow> \<exists>c. evaluateComponents env a = Inr c"
  by (auto simp: evaluateComponents_def evaluateUserSatisfaction_def split: option.splits)

text \<open>
  The weighted sum as the evaluator computes it, five rounded products and four
  rounded sums, against the exact weighted sum.
\<close>

lemma weight_normal: "1 / 8 \<le> w \<Longrightarrow> 2 powi (- 1022) \<le> (w::real)"
proof -
  assume w: "1 / 8 \<le> w"
  have "(2::real) powi (- 1022) \<le> 2 powi (- 3)" by (rule power_int_increasing) simp_all
  also have "\<dots> = 1 / 8" by (simp add: power_int_minus inverse_eq_divide)
  finally show ?thesis using w by linarith
qed

lemma calculateOverallFitness_error:
  "\<bar>calculateOverallFitness defaultWeights c - weightedSum c\<bar>
     \<le> weightedMagnitude c / 2 ^ 48 + 64 * subnormal_half_ulp"
proof -
  define h where "h = subnormal_half_ulp"
  define x1 where "x1 = codeQuality c"
  define x2 where "x2 = performance c"
  define x3 where "x3 = reliability c"
  define x4 where "x4 = userSatisfaction c"
  define x5 where "x5 = resourceEfficiency c"
  define T1 where "T1 = \<bar>x1\<bar> * 0.25"
  define T2 where "T2 = \<bar>x2\<bar> * 0.20"
  define T3 where "T3 = \<bar>x3\<bar> * 0.25"
  define T4 where "T4 = \<bar>x4\<bar> * 0.15"
  define T5 where "T5 = \<bar>x5\<bar> * 0.15"
  have h: "0 \<le> h" unfolding h_def using subnormal_half_ulp_pos by simp
  have T: "0 \<le> T1" "0 \<le> T2" "0 \<le> T3" "0 \<le> T4" "0 \<le> T5"
    unfolding T1_def T2_def T3_def T4_def T5_def by simp_all
  have p1: "\<bar>fmul x1 0.25 - x1 * 0.25\<bar> \<le> 5 * T1 / 2 ^ 53 + 4 * h"
    unfolding T1_def h_def by (rule fmul_weight_error) (simp_all add: weight_normal)
  have p2: "\<bar>fmul x2 0.20 - x2 * 0.20\<bar> \<le> 5 * T2 / 2 ^ 53 + 4 * h"
    unfolding T2_def h_def by (rule fmul_weight_error) (simp_all add: weight_normal)
  have p3: "\<bar>fmul x3 0.25 - x3 * 0.25\<bar> \<le> 5 * T3 / 2 ^ 53 + 4 * h"
    unfolding T3_def h_def by (rule fmul_weight_error) (simp_all add: weight_normal)
  have p4: "\<bar>fmul x4 0.15 - x4 * 0.15\<bar> \<le> 5 * T4 / 2 ^ 53 + 4 * h"
    unfolding T4_def h_def by (rule fmul_weight_error) (simp_all add: weight_normal)
  have p5: "\<bar>fmul x5 0.15 - x5 * 0.15\<bar> \<le> 5 * T5 / 2 ^ 53 + 4 * h"
    unfolding T5_def h_def by (rule fmul_weight_error) (simp_all add: weight_normal)
  have a1: "\<bar>x1 * 0.25\<bar> \<le> T1" and a2: "\<bar>x2 * 0.20\<bar> \<le> T2" and a3: "\<bar>x3 * 0.25\<bar> \<le> T3"
    and a4: "\<bar>x4 * 0.15\<bar> \<le> T4" and a5: "\<bar>x5 * 0.15\<bar> \<le> T5"
    unfolding T1_def T2_def T3_def T4_def T5_def by (simp_all add: abs_mult)
  define s1 where "s1 = fadd (fmul x1 0.25) (fmul x2 0.20)"
  define s2 where "s2 = fadd s1 (fmul x3 0.25)"
  define s3 where "s3 = fadd s2 (fmul x4 0.15)"
  define s4 where "s4 = fadd s3 (fmul x5 0.15)"
  have "\<bar>s1 - (x1 * 0.25 + x2 * 0.20)\<bar>
          \<le> (5 * T1 / 2 ^ 53 + 4 * h) + (5 * T2 / 2 ^ 53 + 4 * h)
            + 3 * (T1 + T2 + (5 * T1 / 2 ^ 53 + 4 * h) + (5 * T2 / 2 ^ 53 + 4 * h)) / 2 ^ 53 + 4 * h"
    unfolding s1_def h_def using p1 p2 a1 a2 unfolding h_def by (rule fadd_error)
  moreover have "(5 * T1 / 2 ^ 53 + 4 * h) + (5 * T2 / 2 ^ 53 + 4 * h)
            + 3 * (T1 + T2 + (5 * T1 / 2 ^ 53 + 4 * h) + (5 * T2 / 2 ^ 53 + 4 * h)) / 2 ^ 53 + 4 * h
          \<le> 9 * (T1 + T2) / 2 ^ 53 + 13 * h"
    using T h by (simp add: field_simps)
  ultimately have e1: "\<bar>s1 - (x1 * 0.25 + x2 * 0.20)\<bar> \<le> 9 * (T1 + T2) / 2 ^ 53 + 13 * h"
    by linarith
  have b1: "\<bar>x1 * 0.25 + x2 * 0.20\<bar> \<le> T1 + T2" using a1 a2 by linarith
  have "\<bar>s2 - (x1 * 0.25 + x2 * 0.20 + x3 * 0.25)\<bar>
          \<le> (9 * (T1 + T2) / 2 ^ 53 + 13 * h) + (5 * T3 / 2 ^ 53 + 4 * h)
            + 3 * (T1 + T2 + T3 + (9 * (T1 + T2) / 2 ^ 53 + 13 * h) + (5 * T3 / 2 ^ 53 + 4 * h)) / 2 ^ 53
            + 4 * h"
    unfolding s2_def h_def using e1 p3 b1 a3 unfolding h_def by (rule fadd_error)
  moreover have "(9 * (T1 + T2) / 2 ^ 53 + 13 * h) + (5 * T3 / 2 ^ 53 + 4 * h)
            + 3 * (T1 + T2 + T3 + (9 * (T1 + T2) / 2 ^ 53 + 13 * h) + (5 * T3 / 2 ^ 53 + 4 * h)) / 2 ^ 53
            + 4 * h
          \<le> 13 * (T1 + T2 + T3) / 2 ^ 53 + 22 * h"
    using T h by (simp add: field_simps)
  ultimately have e2: "\<bar>s2 - (x1 * 0.25 + x2 * 0.20 + x3 * 0.25)\<bar>
      \<le> 13 * (T1 + T2 + T3) / 2 ^ 53 + 22 * h"
    by linarith
  have b2: "\<bar>x1 * 0.25 + x2 * 0.20 + x3 * 0.25\<bar> \<le> T1 + T2 + T3" using a1 a2 a3 by linarith
  have "\<bar>s3 - (x1 * 0.25 + x2 * 0.20 + x3 * 0.25 + x4 * 0.15)\<bar>
          \<le> (13 * (T1 + T2 + T3) / 2 ^ 53 + 22 * h) + (5 * T4 / 2 ^ 53 + 4 * h)
            + 3 * (T1 + T2 + T3 + T4 + (13 * (T1 + T2 + T3) / 2 ^ 53 + 22 * h)
                   + (5 * T4 / 2 ^ 53 + 4 * h)) / 2 ^ 53
            + 4 * h"
    unfolding s3_def h_def using e2 p4 b2 a4 unfolding h_def by (rule fadd_error)
  moreover have "(13 * (T1 + T2 + T3) / 2 ^ 53 + 22 * h) + (5 * T4 / 2 ^ 53 + 4 * h)
            + 3 * (T1 + T2 + T3 + T4 + (13 * (T1 + T2 + T3) / 2 ^ 53 + 22 * h)
                   + (5 * T4 / 2 ^ 53 + 4 * h)) / 2 ^ 53
            + 4 * h
          \<le> 17 * (T1 + T2 + T3 + T4) / 2 ^ 53 + 31 * h"
    using T h by (simp add: field_simps)
  ultimately have e3: "\<bar>s3 - (x1 * 0.25 + x2 * 0.20 + x3 * 0.25 + x4 * 0.15)\<bar>
      \<le> 17 * (T1 + T2 + T3 + T4) / 2 ^ 53 + 31 * h"
    by linarith
  have b3: "\<bar>x1 * 0.25 + x2 * 0.20 + x3 * 0.25 + x4 * 0.15\<bar> \<le> T1 + T2 + T3 + T4"
    using a1 a2 a3 a4 by linarith
  have "\<bar>s4 - (x1 * 0.25 + x2 * 0.20 + x3 * 0.25 + x4 * 0.15 + x5 * 0.15)\<bar>
          \<le> (17 * (T1 + T2 + T3 + T4) / 2 ^ 53 + 31 * h) + (5 * T5 / 2 ^ 53 + 4 * h)
            + 3 * (T1 + T2 + T3 + T4 + T5 + (17 * (T1 + T2 + T3 + T4) / 2 ^ 53 + 31 * h)
                   + (5 * T5 / 2 ^ 53 + 4 * h)) / 2 ^ 53
            + 4 * h"
    unfolding s4_def h_def using e3 p5 b3 a5 unfolding h_def by (rule fadd_error)
  moreover have "(17 * (T1 + T2 + T3 + T4) / 2 ^ 53 + 31 * h) + (5 * T5 / 2 ^ 53 + 4 * h)
            + 3 * (T1 + T2 + T3 + T4 + T5 + (17 * (T1 + T2 + T3 + T4) / 2 ^ 53 + 31 * h)
                   + (5 * T5 / 2 ^ 53 + 4 * h)) / 2 ^ 53
            + 4 * h
          \<le> (T1 + T2 + T3 + T4 + T5) / 2 ^ 48 + 64 * h"
    using T h by (simp add: field_simps)
  ultimately have e4: "\<bar>s4 - (x1 * 0.25 + x2 * 0.20 + x3 * 0.25 + x4 * 0.15 + x5 * 0.15)\<bar>
      \<le> (T1 + T2 + T3 + T4 + T5) / 2 ^ 48 + 64 * h"
    by linarith
  have c: "calculateOverallFitness defaultWeights c = s4"
    by (simp add: calculateOverallFitness_def defaultWeights_def s4_def s3_def s2_def s1_def
        x1_def x2_def x3_def x4_def x5_def)
  have w: "weightedSum c = x1 * 0.25 + x2 * 0.20 + x3 * 0.25 + x4 * 0.15 + x5 * 0.15"
    by (simp add: weightedSum_def x1_def x2_def x3_def x4_def x5_def)
  have m: "weightedMagnitude c = T1 + T2 + T3 + T4 + T5"
    by (simp add: weightedMagnitude_def T1_def T2_def T3_def T4_def T5_def
        x1_def x2_def x3_def x4_def x5_def)
  show ?thesis unfolding c w m using e4 unfolding h_def .
qed

text \<open>
  The initial fitness: the rounded sums and products against the exact ones, for draws
  in \<open>[0, 1]\<close>.
\<close>

lemma fadd_error_small:
  assumes "\<bar>x' - x\<bar> \<le> ex" "\<bar>y' - y\<bar> \<le> ey" "\<bar>x\<bar> \<le> 1" "\<bar>y\<bar> \<le> 1" "ex \<le> 1" "ey \<le> 1"
  shows "\<bar>fadd x' y' - (x + y)\<bar> \<le> ex + ey + 1 / 2 ^ 49"
proof -
  have "\<bar>fadd x' y' - (x + y)\<bar>
          \<le> ex + ey + 3 * (1 + 1 + ex + ey) / 2 ^ 53 + 4 * subnormal_half_ulp"
    using assms(1-4) by (rule fadd_error)
  moreover have "3 * (1 + 1 + ex + ey) / 2 ^ 53 \<le> 12 / 2 ^ 53"
    using assms(5,6) by (simp add: divide_right_mono)
  moreover have "(12::real) / 2 ^ 53 + 4 * (1 / 2 ^ 60) \<le> 1 / 2 ^ 49" by simp
  ultimately show ?thesis using subnormal_half_ulp_small by linarith
qed

lemma fsub_error_small:
  assumes "\<bar>x' - x\<bar> \<le> ex" "\<bar>y' - y\<bar> \<le> ey" "\<bar>x\<bar> \<le> 1" "\<bar>y\<bar> \<le> 1" "ex \<le> 1" "ey \<le> 1"
  shows "\<bar>fsub x' y' - (x - y)\<bar> \<le> ex + ey + 1 / 2 ^ 49"
  using fadd_error_small [of x' x ex "- y'" "- y" ey] assms by (simp add: fsub_fadd)

lemma initial_overall:
  assumes "0 \<le> r" "r \<le> 1"
  shows "\<bar>fadd 0.3 (fmul r 0.4) - (0.3 + r * 0.4)\<bar> \<le> 1 / 2 ^ 48"
proof -
  have m: "\<bar>fmul r 0.4 - r * 0.4\<bar> \<le> 1 / 2 ^ 49"
    using assms by (intro fmul_error_small) simp_all
  have rb: "\<bar>r * 0.4\<bar> \<le> 1" using assms by (simp add: abs_mult)
  have "\<bar>fadd 0.3 (fmul r 0.4) - (0.3 + r * 0.4)\<bar> \<le> 0 + 1 / 2 ^ 49 + 1 / 2 ^ 49"
    using m rb by (intro fadd_error_small) simp_all
  moreover have "(0::real) + 1 / 2 ^ 49 + 1 / 2 ^ 49 \<le> 1 / 2 ^ 48" by simp
  ultimately show ?thesis by linarith
qed

lemma initial_jitter:
  assumes "0 \<le> c" "c \<le> 1" "\<bar>ov\<bar> \<le> 1"
  shows "\<bar>fadd ov (fmul (fsub c 0.5) 0.2) - ov\<bar> \<le> 0.1 + 1 / 2 ^ 47"
proof -
  define d where "d = fsub c 0.5"
  define t where "t = fmul d 0.2"
  have "\<bar>d - (c - 0.5)\<bar> \<le> 0 + 0 + 1 / 2 ^ 49"
    unfolding d_def using assms(1,2) by (intro fsub_error_small) simp_all
  then have d: "\<bar>d - (c - 0.5)\<bar> \<le> 1 / 2 ^ 49" by simp
  have n1: "(1::real) / 2 ^ 49 \<le> 1 / 2" by simp
  have d1: "\<bar>d\<bar> \<le> 1 / 2 + 1 / 2 ^ 49" using d assms(1,2) by linarith
  then have d2: "\<bar>d\<bar> \<le> 1" using n1 by linarith
  have t: "\<bar>t - d * 0.2\<bar> \<le> 1 / 2 ^ 49"
    unfolding t_def using d2 by (intro fmul_error_small) simp_all
  have "\<bar>d * 0.2\<bar> = \<bar>d\<bar> * 0.2" by (simp add: abs_mult)
  then have "\<bar>d * 0.2\<bar> \<le> (1 / 2 + 1 / 2 ^ 49) * 0.2" using d1 by simp
  moreover have "((1::real) / 2 + 1 / 2 ^ 49) * 0.2 + 1 / 2 ^ 49 \<le> 0.1 + 1 / 2 ^ 48" by simp
  ultimately have t1: "\<bar>t\<bar> \<le> 0.1 + 1 / 2 ^ 48" using t by linarith
  have n2: "(0.1::real) + 1 / 2 ^ 48 \<le> 1" by simp
  have t2: "\<bar>t\<bar> \<le> 1" using t1 n2 by linarith
  have "\<bar>fadd ov t - (ov + t)\<bar> \<le> 0 + 0 + 1 / 2 ^ 49"
    using assms(3) t2 by (intro fadd_error_small) simp_all
  moreover have "(0.1::real) + 1 / 2 ^ 48 + (0 + 0 + 1 / 2 ^ 49) \<le> 0.1 + 1 / 2 ^ 47" by simp
  ultimately have "\<bar>fadd ov t - ov\<bar> \<le> 0.1 + 1 / 2 ^ 47" using t1 by linarith
  then show ?thesis unfolding t_def d_def .
qed

text \<open>
  The roundings of the initial fitness for the draws 0.5 (overall) and 0 (a component).
\<close>

lemma fl_init_1: "fl (2 / 5) = 3602879701896397 / 9007199254740992"
  by (rule fl_eval [where e = "- 2" and q = "- 54" and n = "7205759403792794", THEN trans])
     (simp_all add: rte_eval [where n = "7205759403792794"])

lemma fl_init_2: "fl (3602879701896397 / 18014398509481984) = 3602879701896397 / 18014398509481984"
  by (rule fl_exact [where k = "7205759403792794" and p = "- 55"]) simp_all

lemma fl_init_3: "fl (3 / 10) = 5404319552844595 / 18014398509481984"
  by (rule fl_eval [where e = "- 2" and q = "- 54" and n = "5404319552844595", THEN trans])
     (simp_all add: rte_eval [where n = "5404319552844595"])

lemma fl_init_4: "fl (1 / 5) = 3602879701896397 / 18014398509481984"
  by (rule fl_eval [where e = "- 3" and q = "- 55" and n = "7205759403792794", THEN trans])
     (simp_all add: rte_eval [where n = "7205759403792794"])

lemma fl_init_5: "fl (3602879701896397 / 36028797018963968) = 3602879701896397 / 36028797018963968"
  by (rule fl_exact [where k = "7205759403792794" and p = "- 56"]) simp_all

lemma fl_init_6: "fl (14411518807585587 / 36028797018963968) = 3602879701896397 / 9007199254740992"
  by (rule fl_eval [where e = "- 2" and q = "- 54" and n = "7205759403792794", THEN trans])
     (simp_all add: rte_tie [where m = "7205759403792793"])

lemmas fl_init = fl_half fl_init_1 fl_init_2 fl_init_3 fl_init_4 fl_init_5 fl_init_6

lemma ex_initial_overall: "overall (createInitialFitness (ex_draws (1 / 2) 0)) = 1 / 2"
  by (simp add: createInitialFitness_def ex_draws_def Let_def fadd_def fmul_def fl_init)

lemma ex_initial_component:
  "fadd (1 / 2) (fmul (fsub 0 0.5) 0.2) = 3602879701896397 / 9007199254740992"
  by (simp add: fadd_def fmul_def fsub_def fl_minus fl_init)

lemma ex_initial_components:
  "components (createInitialFitness (ex_draws (1 / 2) 0)) =
     \<lparr> codeQuality = 3602879701896397 / 9007199254740992,
       performance = 3602879701896397 / 9007199254740992,
       reliability = 3602879701896397 / 9007199254740992,
       userSatisfaction = 3602879701896397 / 9007199254740992,
       resourceEfficiency = 3602879701896397 / 9007199254740992 \<rparr>"
  by (simp add: createInitialFitness_def ex_draws_def Let_def fadd_def fmul_def fsub_def
      fl_minus fl_init)

text \<open>
  Claim C3, as the code has it. A score returned by the evaluator (with its default
  weights 0.25, 0.20, 0.25, 0.15, 0.15, which sum to 1) has \<open>overall\<close> equal to the
  weighted sum of its five components within floating-point tolerance: a relative
  error of \<open>2 ^ - 48\<close> of the weighted magnitudes (five rounded products, four rounded
  sums and the roundings of the weights), plus 64 half-spacings of the subnormal range.
  The randomized initial fitness of a new population member has \<open>overall\<close> in
  \<open>[0.3, 0.7]\<close>, hence in \<open>[0, 1]\<close>, and every component within 0.1 of \<open>overall\<close> (for
  draws in \<open>[0, 1]\<close>, up to a rounding error of \<open>2 ^ - 47\<close>), but \<open>overall\<close> is drawn on
  its own: it is within 0.1 of the weighted sum of the components and need not be equal
  to it.
\<close>

theorem fitness_overall_weighted:
  "(evaluate defaultWeights env a = Inr f
      \<longrightarrow> \<bar>overall f - weightedSum (components f)\<bar>
            \<le> weightedMagnitude (components f) / 2 ^ 48 + 64 * subnormal_half_ulp)
   \<and> w_codeQuality defaultWeights + w_performance defaultWeights
       + w_reliability defaultWeights + w_userSatisfaction defaultWeights
       + w_resourceEfficiency defaultWeights = 1
   \<and> (0 \<le> r_overall d \<and> r_overall d \<le> 1
      \<longrightarrow> 0.3 - 1 / 2 ^ 47 \<le> overall (createInitialFitness d)
        \<and> overall (createInitialFitness d) \<le> 0.7 + 1 / 2 ^ 47
        \<and> 0 \<le> overall (createInitialFitness d) \<and> overall (createInitialFitness d) \<le> 1)
   \<and> (0 \<le> r_overall d \<and> r_overall d \<le> 1
        \<and> 0 \<le> r_codeQuality d \<and> r_codeQuality d \<le> 1
        \<and> 0 \<le> r_performance d \<and> r_performance d \<le> 1
        \<and> 0 \<le> r_reliability d \<and> r_reliability d \<le> 1
        \<and> 0 \<le> r_userSatisfaction d \<and> r_userSatisfaction d \<le> 1
        \<and> 0 \<le> r_resourceEfficiency d \<and> r_resourceEfficiency d \<le> 1
      \<longrightarrow> \<bar>codeQuality (components (createInitialFitness d)) - overall (createInitialFitness d)\<bar>
            \<le> 0.1 + 1 / 2 ^ 47
        \<and> \<bar>performance (components (createInitialFitness d)) - overall (createInitialFitness d)\<bar>
            \<le> 0.1 + 1 / 2 ^ 47
        \<and> \<bar>reliability (components (createInitialFitness d)) - overall (createInitialFitness d)\<bar>
            \<le> 0.1 + 1 / 2 ^ 47
        \<and> \<bar>userSatisfaction (components (createInitialFitness d)) - overall (createInitialFitness d)\<bar>
            \<le> 0.1 + 1 / 2 ^ 47
        \<and> \<bar>resourceEfficiency (components (createInitialFitness d)) - overall (createInitialFitness d)\<bar>
            \<le> 0.1 + 1 / 2 ^ 47
        \<and> \<bar>weightedSum (components (createInitialFitness d)) - overall (createInitialFitness d)\<bar>
            \<le> 0.1 + 1 / 2 ^ 47)"
proof -
  have tol: "\<bar>overall f - weightedSum (components f)\<bar>
            \<le> weightedMagnitude (components f) / 2 ^ 48 + 64 * subnormal_half_ulp"
    if ev: "evaluate defaultWeights env a = Inr f"
  proof (cases "evaluateComponents env a")
    case (Inl e)
    with ev have f: "f = createMinimalFitness (eval_now env)" by (simp add: evaluate_cases)
    have "overall f - weightedSum (components f) = 0"
      unfolding f by (simp add: createMinimalFitness_def weightedSum_def)
    moreover have "0 \<le> weightedMagnitude (components f)"
      by (simp add: weightedMagnitude_def)
    ultimately show ?thesis using subnormal_half_ulp_pos by simp
  next
    case (Inr c)
    with ev have "f = \<lparr> overall = calculateOverallFitness defaultWeights c, components = c,
                         fs_timestamp = eval_now env \<rparr>"
      by (simp add: evaluate_cases)
    then show ?thesis using calculateOverallFitness_error [of c] by simp
  qed
  have sum1: "w_codeQuality defaultWeights + w_performance defaultWeights
       + w_reliability defaultWeights + w_userSatisfaction defaultWeights
       + w_resourceEfficiency defaultWeights = 1"
    by (simp add: defaultWeights_def)
  have n1: "(1::real) / 2 ^ 48 \<le> 1 / 2 ^ 47" by simp
  have n2: "(0.7::real) + 1 / 2 ^ 48 \<le> 1" by simp
  have ovb: "\<bar>overall (createInitialFitness d) - (0.3 + r_overall d * 0.4)\<bar> \<le> 1 / 2 ^ 48"
    if "0 \<le> r_overall d \<and> r_overall d \<le> 1"
    using that initial_overall [of "r_overall d"] by (simp add: createInitialFitness_def Let_def)
  have nn: "0 \<le> overall (createInitialFitness d)" if "0 \<le> r_overall d \<and> r_overall d \<le> 1"
  proof -
    have "0 \<le> fmul (r_overall d) 0.4" using that by (intro fmul_nonneg) simp_all
    then have "0 \<le> fl (fl 0.3 + fl (fmul (r_overall d) 0.4))"
      by (intro fl_nonneg add_nonneg_nonneg) simp_all
    then show ?thesis by (simp add: createInitialFitness_def Let_def fadd_def)
  qed
  have ov: "0.3 - 1 / 2 ^ 47 \<le> overall (createInitialFitness d)
        \<and> overall (createInitialFitness d) \<le> 0.7 + 1 / 2 ^ 47
        \<and> 0 \<le> overall (createInitialFitness d) \<and> overall (createInitialFitness d) \<le> 1"
    if r: "0 \<le> r_overall d \<and> r_overall d \<le> 1"
    using ovb [OF r] nn [OF r] r n1 n2 by (intro conjI) linarith+
  have comp: "\<bar>codeQuality (components (createInitialFitness d)) - overall (createInitialFitness d)\<bar>
            \<le> 0.1 + 1 / 2 ^ 47
        \<and> \<bar>performance (components (createInitialFitness d)) - overall (createInitialFitness d)\<bar>
            \<le> 0.1 + 1 / 2 ^ 47
        \<and> \<bar>reliability (components (createInitialFitness d)) - overall (createInitialFitness d)\<bar>
            \<le> 0.1 + 1 / 2 ^ 47
        \<and> \<bar>userSatisfaction (components (createInitialFitness d)) - overall (createInitialFitness d)\<bar>
            \<le> 0.1 + 1 / 2 ^ 47
        \<and> \<bar>resourceEfficiency (components (createInitialFitness d)) - overall (createInitialFitness d)\<bar>
            \<le> 0.1 + 1 / 2 ^ 47
        \<and> \<bar>weightedSum (components (createInitialFitness d)) - overall (createInitialFitness d)\<bar>
            \<le> 0.1 + 1 / 2 ^ 47"
    if dr: "0 \<le> r_overall d \<and> r_overall d \<le> 1
        \<and> 0 \<le> r_codeQuality d \<and> r_codeQuality d \<le> 1
        \<and> 0 \<le> r_performance d \<and> r_performance d \<le> 1
        \<and> 0 \<le> r_reliability d \<and> r_reliability d \<le> 1
        \<and> 0 \<le> r_userSatisfaction d \<and> r_userSatisfaction d \<le> 1
        \<and> 0 \<le> r_resourceEfficiency d \<and> r_resourceEfficiency d \<le> 1"
  proof -
    define ov where "ov = overall (createInitialFitness d)"
    have o: "ov = fadd 0.3 (fmul (r_overall d) 0.4)"
      by (simp add: ov_def createInitialFitness_def Let_def)
    have ob: "\<bar>ov\<bar> \<le> 1" using ov dr unfolding ov_def by simp
    define e where "e = (0.1::real) + 1 / 2 ^ 47"
    have c1: "\<bar>codeQuality (components (createInitialFitness d)) - ov\<bar> \<le> e"
      using initial_jitter [of "r_codeQuality d" ov] dr ob
      by (simp add: createInitialFitness_def Let_def o e_def)
    have c2: "\<bar>performance (components (createInitialFitness d)) - ov\<bar> \<le> e"
      using initial_jitter [of "r_performance d" ov] dr ob
      by (simp add: createInitialFitness_def Let_def o e_def)
    have c3: "\<bar>reliability (components (createInitialFitness d)) - ov\<bar> \<le> e"
      using initial_jitter [of "r_reliability d" ov] dr ob
      by (simp add: createInitialFitness_def Let_def o e_def)
    have c4: "\<bar>userSatisfaction (components (createInitialFitness d)) - ov\<bar> \<le> e"
      using initial_jitter [of "r_userSatisfaction d" ov] dr ob
      by (simp add: createInitialFitness_def Let_def o e_def)
    have c5: "\<bar>resourceEfficiency (components (createInitialFitness d)) - ov\<bar> \<le> e"
      using initial_jitter [of "r_resourceEfficiency d" ov] dr ob
      by (simp add: createInitialFitness_def Let_def o e_def)
    have "\<bar>weightedSum (components (createInitialFitness d)) - ov\<bar> \<le> e"
      using c1 c2 c3 c4 c5 unfolding weightedSum_def by (simp add: abs_le_iff)
    with c1 c2 c3 c4 c5 show ?thesis unfolding ov_def e_def by blast
  qed
  from tol sum1 ov comp show ?thesis by blast
qed

theorem fitness_overall_weighted_witness:
  "(\<exists>c f. evaluateComponents ex_evalEnv (ex_agent ''agent_1'') = Inr c
       \<and> evaluate defaultWeights ex_evalEnv (ex_agent ''agent_1'') = Inr f
       \<and> components f = c
       \<and> \<bar>overall f - weightedSum c\<bar> \<le> weightedMagnitude c / 2 ^ 48 + 64 * subnormal_half_ulp)
   \<and> 0 \<le> overall (createInitialFitness (ex_draws (1 / 2) 0))
   \<and> overall (createInitialFitness (ex_draws (1 / 2) 0)) \<le> 1
   \<and> \<bar>weightedSum (components (createInitialFitness (ex_draws (1 / 2) 0)))
       - overall (createInitialFitness (ex_draws (1 / 2) 0))\<bar> \<le> 0.1 + 1 / 2 ^ 47"
proof -
  obtain c where c: "evaluateComponents ex_evalEnv (ex_agent ''agent_1'') = Inr c"
    using evaluateComponents_Inr [of "ex_agent ''agent_1''" ex_evalEnv]
    by (auto simp: ex_agent_def)
  define f where "f = \<lparr> overall = calculateOverallFitness defaultWeights c, components = c,
                         fs_timestamp = eval_now ex_evalEnv \<rparr>"
  have f: "evaluate defaultWeights ex_evalEnv (ex_agent ''agent_1'') = Inr f"
    using c by (simp add: evaluate_cases f_def)
  have fc: "components f = c" by (simp add: f_def)
  from fitness_overall_weighted [of ex_evalEnv "ex_agent ''agent_1''" f "ex_draws (1 / 2) 0"]
    c f fc
  show ?thesis by (simp add: ex_draws_def)
qed

text \<open>
  The initial fitness for the draws 0.5 (overall) and 0 (every component): \<open>overall\<close> is
  0.5, every component is the double 0.4 and so is their weighted sum; the difference
  is almost 0.1.
\<close>

theorem initial_fitness_counterexample:
  "overall (createInitialFitness (ex_draws (1 / 2) 0)) = 1 / 2
   \<and> weightedSum (components (createInitialFitness (ex_draws (1 / 2) 0))) = 3602879701896397 / 9007199254740992
   \<and> 9 / 100 < overall (createInitialFitness (ex_draws (1 / 2) 0))
                - weightedSum (components (createInitialFitness (ex_draws (1 / 2) 0)))"
  by (simp add: ex_initial_overall ex_initial_components weightedSum_def)



section \<open>Archive search\<close>

lemma search_filter_range:
  "search_filter ar (fitnessRangeQuery a b) = bruteForceRange ar a b"
  by (simp add: search_filter_def fitnessRangeQuery_def bruteForceRange_def conj_commute)

lemma sortEntries_default:
  "sortEntries es None = sort_desc (\<lambda>e. overall (fitnessMetrics e)) es"
  by (simp add: sortEntries_def)

lemma search_range_entries:
  "res_entries (search ar (fitnessRangeQuery a b))
     = take 50 (sort_desc (\<lambda>e. overall (fitnessMetrics e)) (bruteForceRange ar a b))"
  unfolding search_def Let_def search_filter_range
  by (simp add: fitnessRangeQuery_def sortEntries_default)

lemma search_range_total:
  "totalCount (search ar (fitnessRangeQuery a b)) = length (bruteForceRange ar a b)"
  unfolding search_def Let_def search_filter_range
  by (simp add: fitnessRangeQuery_def sortEntries_default)

lemma search_range_hasMore:
  "hasMore (search ar (fitnessRangeQuery a b)) = (50 < length (bruteForceRange ar a b))"
  unfolding search_def Let_def search_filter_range
  by (simp add: fitnessRangeQuery_def sortEntries_default)

text \<open>
  Claim C9, as the code has it. For a query that sets only the two fitness bounds,
  \<open>totalCount\<close> is the number of stored entries with \<open>a \<le> overall \<le> b\<close>, the entries
  returned are the first 50 (the default page) of those entries in descending order of
  fitness, and they are exactly the brute-force set when it has at most 50 elements;
  \<open>hasMore\<close> tells that it has more.
\<close>

theorem search_fitness_range:
  "totalCount (search ar (fitnessRangeQuery a b)) = length (bruteForceRange ar a b)
   \<and> res_entries (search ar (fitnessRangeQuery a b))
       = take 50 (sort_desc (\<lambda>e. overall (fitnessMetrics e)) (bruteForceRange ar a b))
   \<and> set (res_entries (search ar (fitnessRangeQuery a b))) \<subseteq> set (bruteForceRange ar a b)
   \<and> length (res_entries (search ar (fitnessRangeQuery a b)))
       = min 50 (length (bruteForceRange ar a b))
   \<and> hasMore (search ar (fitnessRangeQuery a b)) = (50 < length (bruteForceRange ar a b))
   \<and> (length (bruteForceRange ar a b) \<le> 50
        \<longrightarrow> set (res_entries (search ar (fitnessRangeQuery a b)))
              = set (bruteForceRange ar a b))
   \<and> (\<forall>e. e \<in> set (bruteForceRange ar a b)
          \<longleftrightarrow> e \<in> set (entries ar) \<and> a \<le> overall (fitnessMetrics e)
                \<and> overall (fitnessMetrics e) \<le> b)"
proof -
  let ?brute = "bruteForceRange ar a b"
  let ?sorted = "sort_desc (\<lambda>e. overall (fitnessMetrics e)) ?brute"
  have sub: "set (take 50 ?sorted) \<subseteq> set ?brute"
    using set_take_subset [of 50 ?sorted] by simp
  have len: "length (take 50 ?sorted) = min 50 (length ?brute)" by simp
  have all: "length ?brute \<le> 50 \<longrightarrow> set (take 50 ?sorted) = set ?brute" by simp
  have mem: "\<forall>e. e \<in> set ?brute
          \<longleftrightarrow> e \<in> set (entries ar) \<and> a \<le> overall (fitnessMetrics e)
                \<and> overall (fitnessMetrics e) \<le> b"
    by (auto simp: bruteForceRange_def)
  show ?thesis
    unfolding search_range_entries search_range_total search_range_hasMore
    using sub len all mem by blast
qed

lemma ex_brute: "bruteForceRange (ex_archive n) 0 1 = map ex_entry [0..<n]"
  by (simp add: bruteForceRange_def ex_archive_def filter_map o_def ex_entry_def ex_fitness_def)

theorem search_fitness_range_witness:
  "length (bruteForceRange (ex_archive 3) 0 1) \<le> 50
   \<and> set (res_entries (search (ex_archive 3) (fitnessRangeQuery 0 1)))
       = set (bruteForceRange (ex_archive 3) 0 1)
   \<and> totalCount (search (ex_archive 3) (fitnessRangeQuery 0 1)) = 3"
  using search_fitness_range [of "ex_archive 3" 0 1] by (simp add: ex_brute)

text \<open>
  An archive of 51 entries, all of fitness 0.5, and the range \<open>[0, 1]\<close>: the brute-force
  filter gives 51 entries, the search returns 50.
\<close>

theorem search_page_counterexample:
  "length (res_entries (search (ex_archive 51) (fitnessRangeQuery 0 1))) = 50
   \<and> length (bruteForceRange (ex_archive 51) 0 1) = 51"
  by (simp add: search_range_entries ex_brute)

section \<open>Replacement\<close>

lemma thePopulation_Some:
  "thePopulation s = Some p \<longleftrightarrow> (\<exists>r. currentPopulation s = Some r \<and> heap s r = Some p)"
  by (simp add: thePopulation_def split: option.splits)

lemma replacePopulation_current:
  assumes "thePopulation s = Some p"
  shows "thePopulation (replacePopulation cfg genv newAgents s) =
           Some (createPopulation (fitnessDraws genv) (newPopId genv) (newPopNow genv)
                   (js_slice0 (elites cfg p @ newAgents) (populationSize cfg))
                   (pop_generation p + 1))"
proof -
  from assms obtain r where r: "currentPopulation s = Some r" "heap s r = Some p"
    by (auto simp: thePopulation_Some)
  show ?thesis
    by (simp add: replacePopulation_def r Let_def thePopulation_def)
qed

lemma createPopulation_length [simp]:
  "length (agents (createPopulation ds pid now as gen)) = length as"
  by (simp add: createPopulation_def Let_def)

lemma createPopulation_generation [simp]:
  "pop_generation (createPopulation ds pid now as gen) = gen"
  by (simp add: createPopulation_def Let_def)

lemma createPopulation_nth:
  assumes "i < length as"
  shows "agent (agents (createPopulation ds pid now as gen) ! i) = as ! i"
    and "fitness (agents (createPopulation ds pid now as gen) ! i) = createInitialFitness (ds i)"
    and "age (agents (createPopulation ds pid now as gen) ! i) = 0"
  using assms by (simp_all add: createPopulation_def Let_def nth_enumerate_eq)

lemma createPopulation_agents:
  "map agent (agents (createPopulation ds pid now as gen)) = as"
  by (rule nth_equalityI) (simp_all add: createPopulation_nth)

lemma performCrossover_length:
  "length (performCrossover ids k parents) = 2 * (length parents div 2)"
  by (induction ids k parents rule: performCrossover.induct) (simp_all add: crossover_def)

lemma length_crossover [simp]: "length (crossover src1 src2 p1 p2) = 2"
  by (simp add: crossover_def)

lemma elites_length:
  assumes "0 \<le> elitismRate cfg"
  shows "length (elites cfg p) = min (nat (eliteCount cfg p)) (length (agents p))"
proof -
  have "0 \<le> fmul (real (length (agents p))) (elitismRate cfg)"
    using assms by (intro fmul_nonneg) simp_all
  then have "0 \<le> eliteCount cfg p" by (simp add: eliteCount_def)
  then show ?thesis by (simp add: elites_def sortedAgents_def length_js_slice0)
qed

lemma sort_desc_top:
  assumes "m \<in> set (take k (sort_desc f xs))" and "m' \<in> set (drop k (sort_desc f xs))"
  shows "f m' \<le> f m"
proof -
  let ?ys = "sort_desc f xs"
  have "sorted (map (\<lambda>x. - f x) (take k ?ys @ drop k ?ys))"
    by (simp add: sort_desc_def)
  then have "\<forall>x \<in> set (take k ?ys). \<forall>y \<in> set (drop k ?ys). - f x \<le> - f y"
    unfolding map_append sorted_append by auto
  with assms show ?thesis by auto
qed

lemma sort_desc_stable:
  "filter (\<lambda>m. f m = v) (sort_desc f xs) = filter (\<lambda>m. f m = v) xs"
  using sort_key_stable [of "\<lambda>x. - f x" "- v" xs] by (simp add: sort_desc_def)

text \<open>
  Claim C1, as the code has it. Replacement builds the new population from the elites
  followed by the offspring, cut to \<open>populationSize\<close>; nothing is padded. The new
  population has \<open>min populationSize (elites + offspring)\<close> members: never more than
  \<open>populationSize\<close>, and exactly \<open>populationSize\<close> only if elites and offspring together
  are at least that many. Crossover makes two children of every full pair of parents.
\<close>

theorem replacement_size:
  "(thePopulation s = Some p \<and> 0 \<le> populationSize cfg
      \<longrightarrow> (\<exists>p'. thePopulation (replacePopulation cfg genv newAgents s) = Some p'
            \<and> length (agents p')
                = min (nat (populationSize cfg)) (length (elites cfg p) + length newAgents)
            \<and> length (agents p') \<le> nat (populationSize cfg)
            \<and> (length (agents p') = nat (populationSize cfg)
                 \<longleftrightarrow> nat (populationSize cfg) \<le> length (elites cfg p) + length newAgents)))
   \<and> (0 \<le> elitismRate cfg
        \<longrightarrow> length (elites cfg p) = min (nat (eliteCount cfg p)) (length (agents p)))
   \<and> length (performCrossover ids k parents) = 2 * (length parents div 2)"
proof (intro conjI impI)
  assume a: "thePopulation s = Some p \<and> 0 \<le> populationSize cfg"
  let ?p' = "createPopulation (fitnessDraws genv) (newPopId genv) (newPopNow genv)
                   (js_slice0 (elites cfg p @ newAgents) (populationSize cfg))
                   (pop_generation p + 1)"
  have cur: "thePopulation (replacePopulation cfg genv newAgents s) = Some ?p'"
    using a replacePopulation_current by blast
  have len: "length (agents ?p')
      = min (nat (populationSize cfg)) (length (elites cfg p) + length newAgents)"
    using a by (simp add: length_js_slice0)
  from cur len show "\<exists>p'. thePopulation (replacePopulation cfg genv newAgents s) = Some p'
            \<and> length (agents p')
                = min (nat (populationSize cfg)) (length (elites cfg p) + length newAgents)
            \<and> length (agents p') \<le> nat (populationSize cfg)
            \<and> (length (agents p') = nat (populationSize cfg)
                 \<longleftrightarrow> nat (populationSize cfg) \<le> length (elites cfg p) + length newAgents)"
    by auto
next
  assume "0 \<le> elitismRate cfg"
  then show "length (elites cfg p) = min (nat (eliteCount cfg p)) (length (agents p))"
    by (rule elites_length)
next
  show "length (performCrossover ids k parents) = 2 * (length parents div 2)"
    by (rule performCrossover_length)
qed

lemma ex_thePopulation: "thePopulation ex_engine = Some ex_population"
  by (simp add: thePopulation_def ex_engine_def)

lemma fl_quarter: "fl (1 / 4) = 1 / 4"
  by (rule fl_exact [where k = 1 and p = "- 2"]) simp_all

lemma ex_eliteCount: "eliteCount ex_cfg ex_population = 1"
  by (simp add: eliteCount_def ex_cfg_def ex_population_def fmul_def fl_quarter)

lemma ex_elites: "elites ex_cfg ex_population = [ex_agent ''agent_2'']"
  by (simp add: elites_def ex_eliteCount)
     (simp add: sortedAgents_def sort_desc_def js_slice0_def
        ex_population_def ex_member_def ex_fitness_def)

theorem replacement_size_witness:
  "\<exists>p'. thePopulation (replacePopulation ex_cfg ex_genv
            (performCrossover (childIds ex_genv) 0
               (map ex_agent [''a'', ''b'', ''c'', ''d'', ''e'', ''f'']))
            ex_engine) = Some p'
        \<and> length (agents p') = 4"
proof -
  define off where
    "off = performCrossover (childIds ex_genv) 0
             (map ex_agent [''a'', ''b'', ''c'', ''d'', ''e'', ''f''])"
  have off: "length off = 6" by (simp add: off_def performCrossover_length)
  have size: "0 \<le> populationSize ex_cfg" "nat (populationSize ex_cfg) = 4"
    by (simp_all add: ex_cfg_def)
  from replacement_size [of ex_engine ex_population ex_cfg ex_genv off "childIds ex_genv" 0 "[]"]
    ex_thePopulation size(1)
  have "\<exists>p'. thePopulation (replacePopulation ex_cfg ex_genv off ex_engine) = Some p'
            \<and> length (agents p')
                = min (nat (populationSize ex_cfg))
                    (length (elites ex_cfg ex_population) + length off)"
    by blast
  then show ?thesis
    unfolding off size(2) ex_elites by (simp add: off_def)
qed

text \<open>
  A population of 4 with \<open>populationSize = 4\<close>, elitism rate 0.25 and crossover rate 0.5:
  one elite and the two children of the two selected parents make a new population
  of 3.
\<close>

theorem replacement_size_counterexample:
  "selectParents ex_cfg ex_selEnv ex_engine = Inr [ex_agent ''agent_2'', ex_agent ''agent_1'']
   \<and> map_option (\<lambda>p. length (agents p))
       (thePopulation (replacePopulation ex_cfg ex_genv
          (performCrossover (childIds ex_genv) 0 [ex_agent ''agent_2'', ex_agent ''agent_1''])
          ex_engine)) = Some 3
   \<and> populationSize ex_cfg = 4"
proof -
  have "selectParents ex_cfg ex_selEnv ex_engine = Inr [ex_agent ''agent_2'', ex_agent ''agent_1'']"
    by (simp add: selectParents_def ex_thePopulation select_def rankSelection_def
        sort_desc_def js_slice0_def ex_cfg_def ex_population_def ex_member_def ex_fitness_def
        fmul_def fl_half)
  moreover have "map_option (\<lambda>p. length (agents p))
       (thePopulation (replacePopulation ex_cfg ex_genv
          (performCrossover (childIds ex_genv) 0 [ex_agent ''agent_2'', ex_agent ''agent_1''])
          ex_engine)) = Some 3"
    by (simp add: replacePopulation_current [OF ex_thePopulation] ex_elites length_js_slice0)
       (simp add: ex_cfg_def)
  moreover have "populationSize ex_cfg = 4" by (simp add: ex_cfg_def)
  ultimately show ?thesis by blast
qed

text \<open>
  The number of elites is the floor of the rounded product
  \<open>population.agents.length * config.elitismRate\<close>. For 100 members and the rate 0.29 it
  is 28: the double 0.29 is below 0.29 and the product rounds to 28.999999999999996,
  where the exact product of 100 and 0.29 has the floor 29. For 10 members and the
  rate 0.7 it is 7: the product rounds up to 7, where the exact product of 10 and the
  double 0.7 has the floor 6.
\<close>

lemma fl_elite_1: "fl (100) = 100"
  by (rule fl_exact [where k = "7036874417766400" and p = "- 46"]) simp_all

lemma fl_elite_2: "fl (29 / 100) = 5224175567749775 / 18014398509481984"
  by (rule fl_eval [where e = "- 2" and q = "- 54" and n = "5224175567749775", THEN trans])
     (simp_all add: rte_eval [where n = "5224175567749775"])

lemma fl_elite_3: "fl (130604389193744375 / 4503599627370496) = 8162774324609023 / 281474976710656"
  by (rule fl_eval [where e = "4" and q = "- 48" and n = "8162774324609023", THEN trans])
     (simp_all add: rte_eval [where n = "8162774324609023"])

lemma fl_elite_4: "fl (10) = 10"
  by (rule fl_exact [where k = "5629499534213120" and p = "- 49"]) simp_all

lemma fl_elite_5: "fl (7 / 10) = 3152519739159347 / 4503599627370496"
  by (rule fl_eval [where e = "- 1" and q = "- 53" and n = "6305039478318694", THEN trans])
     (simp_all add: rte_eval [where n = "6305039478318694"])

lemma fl_elite_6: "fl (15762598695796735 / 2251799813685248) = 7"
  by (rule fl_eval [where e = "2" and q = "- 50" and n = "7881299347898368", THEN trans])
     (simp_all add: rte_tie [where m = "7881299347898367"])

lemma eliteCount_rounded:
  "(length (agents p) = 100 \<and> elitismRate cfg = 0.29 \<longrightarrow> eliteCount cfg p = 28)
   \<and> \<lfloor>(100::real) * 0.29\<rfloor> = 29
   \<and> (length (agents p) = 10 \<and> elitismRate cfg = 0.7 \<longrightarrow> eliteCount cfg p = 7)
   \<and> \<lfloor>(10::real) * fl 0.7\<rfloor> = 6"
proof (intro conjI impI)
  assume h: "length (agents p) = 100 \<and> elitismRate cfg = 0.29"
  have a: "\<lfloor>fmul (real 100) 0.29\<rfloor> = 28" by (simp add: fmul_def fl_elite_1 fl_elite_2 fl_elite_3 fl_elite_4 fl_elite_5 fl_elite_6)
  from h have l: "length (agents p) = 100" and r: "elitismRate cfg = 0.29" by blast+
  show "eliteCount cfg p = 28" unfolding eliteCount_def l r by (rule a)
next
  show "\<lfloor>(100::real) * 0.29\<rfloor> = 29" by simp
next
  assume h: "length (agents p) = 10 \<and> elitismRate cfg = 0.7"
  have a: "\<lfloor>fmul (real 10) 0.7\<rfloor> = 7" by (simp add: fmul_def fl_elite_1 fl_elite_2 fl_elite_3 fl_elite_4 fl_elite_5 fl_elite_6)
  from h have l: "length (agents p) = 10" and r: "elitismRate cfg = 0.7" by blast+
  show "eliteCount cfg p = 7" unfolding eliteCount_def l r by (rule a)
next
  show "\<lfloor>(10::real) * fl 0.7\<rfloor> = 6" by (simp add: fl_elite_1 fl_elite_2 fl_elite_3 fl_elite_4 fl_elite_5 fl_elite_6)
qed

text \<open>
  Claim C2, as the code has it. The elites are the first
  \<open>Math.floor(size * elitismRate)\<close> members, the product being the rounded product of
  the two doubles, in the stable descending order of \<open>fitness.overall\<close>: no member outside
  is fitter than a member inside, and members of equal fitness keep the order they
  have in the population (the agent id plays no part). When they fit into
  \<open>populationSize\<close>, the next population begins with exactly these agents, the same
  objects and so with the same ids, in that order; their member fitness is drawn anew
  by \<open>createInitialFitness\<close> and their age is 0.
\<close>

theorem elites_carried_over:
  "(thePopulation s = Some p \<and> int (length (elites cfg p)) \<le> populationSize cfg
      \<longrightarrow> (\<exists>p'. thePopulation (replacePopulation cfg genv newAgents s) = Some p'
            \<and> pop_generation p' = pop_generation p + 1
            \<and> take (length (elites cfg p)) (map agent (agents p')) = elites cfg p
            \<and> set (elites cfg p) \<subseteq> agent ` set (agents p')
            \<and> (\<forall>i < length (elites cfg p).
                  agent (agents p' ! i) = elites cfg p ! i
                  \<and> agent_id (agent (agents p' ! i)) = agent_id (elites cfg p ! i)
                  \<and> fitness (agents p' ! i) = createInitialFitness (fitnessDraws genv i)
                  \<and> age (agents p' ! i) = 0)))
   \<and> elites cfg p
       = map agent (js_slice0 (sortedAgents p)
                      \<lfloor>fmul (real (length (agents p))) (elitismRate cfg)\<rfloor>)
   \<and> (\<forall>m m'. m \<in> set (take k (sortedAgents p)) \<and> m' \<in> set (drop k (sortedAgents p))
         \<longrightarrow> overall (fitness m') \<le> overall (fitness m))
   \<and> (\<forall>v. filter (\<lambda>m. overall (fitness m) = v) (sortedAgents p)
            = filter (\<lambda>m. overall (fitness m) = v) (agents p))"
proof (intro conjI impI)
  assume a: "thePopulation s = Some p \<and> int (length (elites cfg p)) \<le> populationSize cfg"
  let ?n = "length (elites cfg p)"
  let ?as = "js_slice0 (elites cfg p @ newAgents) (populationSize cfg)"
  let ?p' = "createPopulation (fitnessDraws genv) (newPopId genv) (newPopNow genv) ?as
               (pop_generation p + 1)"
  have cur: "thePopulation (replacePopulation cfg genv newAgents s) = Some ?p'"
    using a replacePopulation_current by blast
  have nonneg: "0 \<le> populationSize cfg" using a by linarith
  have as: "?as = take (nat (populationSize cfg)) (elites cfg p @ newAgents)"
    using nonneg by (simp add: js_slice0_nonneg)
  have le: "?n \<le> nat (populationSize cfg)" using a by linarith
  have tk: "take ?n ?as = elites cfg p"
    unfolding as using le by (simp add: min_absorb1)
  have len: "?n \<le> length ?as" unfolding as using le by simp
  have nth: "?as ! i = elites cfg p ! i" if "i < ?n" for i
  proof -
    have "?as ! i = take ?n ?as ! i" using that by simp
    then show ?thesis by (simp only: tk)
  qed
  have t: "take ?n (map agent (agents ?p')) = elites cfg p"
    by (simp only: createPopulation_agents tk)
  have sub: "set (elites cfg p) \<subseteq> agent ` set (agents ?p')"
  proof -
    have "set (elites cfg p) \<subseteq> set (map agent (agents ?p'))"
      using set_take_subset [of ?n "map agent (agents ?p')"] by (simp only: t)
    then show ?thesis by simp
  qed
  have each: "\<forall>i < ?n. agent (agents ?p' ! i) = elites cfg p ! i
                  \<and> agent_id (agent (agents ?p' ! i)) = agent_id (elites cfg p ! i)
                  \<and> fitness (agents ?p' ! i) = createInitialFitness (fitnessDraws genv i)
                  \<and> age (agents ?p' ! i) = 0"
  proof (intro allI impI)
    fix i assume i: "i < ?n"
    then have il: "i < length ?as" using len by linarith
    show "agent (agents ?p' ! i) = elites cfg p ! i
                  \<and> agent_id (agent (agents ?p' ! i)) = agent_id (elites cfg p ! i)
                  \<and> fitness (agents ?p' ! i) = createInitialFitness (fitnessDraws genv i)
                  \<and> age (agents ?p' ! i) = 0"
      using createPopulation_nth [OF il] nth [OF i] by simp
  qed
  have gen: "pop_generation ?p' = pop_generation p + 1" by simp
  from cur gen t sub each
  show "\<exists>p'. thePopulation (replacePopulation cfg genv newAgents s) = Some p'
            \<and> pop_generation p' = pop_generation p + 1
            \<and> take (length (elites cfg p)) (map agent (agents p')) = elites cfg p
            \<and> set (elites cfg p) \<subseteq> agent ` set (agents p')
            \<and> (\<forall>i < length (elites cfg p).
                  agent (agents p' ! i) = elites cfg p ! i
                  \<and> agent_id (agent (agents p' ! i)) = agent_id (elites cfg p ! i)
                  \<and> fitness (agents p' ! i) = createInitialFitness (fitnessDraws genv i)
                  \<and> age (agents p' ! i) = 0)"
    by blast
next
  show "elites cfg p
       = map agent (js_slice0 (sortedAgents p)
                      \<lfloor>fmul (real (length (agents p))) (elitismRate cfg)\<rfloor>)"
    by (simp add: elites_def eliteCount_def)
next
  show "\<forall>m m'. m \<in> set (take k (sortedAgents p)) \<and> m' \<in> set (drop k (sortedAgents p))
         \<longrightarrow> overall (fitness m') \<le> overall (fitness m)"
    unfolding sortedAgents_def
    using sort_desc_top [of _ k "\<lambda>a. overall (fitness a)" "agents p"] by blast
next
  show "\<forall>v. filter (\<lambda>m. overall (fitness m) = v) (sortedAgents p)
            = filter (\<lambda>m. overall (fitness m) = v) (agents p)"
    unfolding sortedAgents_def by (simp add: sort_desc_stable)
qed

theorem elites_carried_over_witness:
  "\<exists>p'. thePopulation (replacePopulation ex_cfg ex_genv [] ex_engine) = Some p'
     \<and> pop_generation p' = 1
     \<and> agent (agents p' ! 0) = ex_agent ''agent_2''
     \<and> fitness (agents p' ! 0) = createInitialFitness (ex_draws (1 / 2) 0)"
proof -
  have "int (length (elites ex_cfg ex_population)) \<le> populationSize ex_cfg"
    by (simp add: ex_elites) (simp add: ex_cfg_def)
  moreover have "pop_generation ex_population = 0" by (simp add: ex_population_def)
  moreover have "fitnessDraws ex_genv 0 = ex_draws (1 / 2) 0" by (simp add: ex_genv_def)
  ultimately show ?thesis
    using elites_carried_over [of ex_engine ex_population ex_cfg ex_genv "[]" 0]
      ex_thePopulation ex_elites
    by auto
qed

text \<open>
  Two members tie at fitness 0.9, \<open>agent_2\<close> before \<open>agent_1\<close>, and one elite is kept:
  the next population holds \<open>agent_2\<close>, not the lower id \<open>agent_1\<close>, and its fitness
  there is 0.5, not 0.9.
\<close>

theorem elites_fitness_counterexample:
  "map (\<lambda>m. (agent_id (agent m), overall (fitness m))) (agents ex_population)
     = [(''agent_2'', 9 / 10), (''agent_1'', 9 / 10), (''agent_3'', 1 / 2), (''agent_4'', 2 / 5)]
   \<and> map_option (\<lambda>p. map (\<lambda>m. (agent_id (agent m), overall (fitness m))) (agents p))
       (thePopulation (replacePopulation ex_cfg ex_genv [] ex_engine))
     = Some [(''agent_2'', 1 / 2)]"
proof -
  have "map (\<lambda>m. (agent_id (agent m), overall (fitness m))) (agents ex_population)
     = [(''agent_2'', 9 / 10), (''agent_1'', 9 / 10), (''agent_3'', 1 / 2), (''agent_4'', 2 / 5)]"
    by (simp add: ex_population_def ex_member_def ex_fitness_def ex_agent_def)
  moreover have "js_slice0 [ex_agent ''agent_2''] (populationSize ex_cfg) = [ex_agent ''agent_2'']"
    by (simp add: js_slice0_def ex_cfg_def)
  then have "map_option (\<lambda>p. map (\<lambda>m. (agent_id (agent m), overall (fitness m))) (agents p))
       (thePopulation (replacePopulation ex_cfg ex_genv [] ex_engine))
     = Some [(''agent_2'', 1 / 2)]"
    by (simp add: replacePopulation_current [OF ex_thePopulation] ex_elites)
       (simp add: createPopulation_def ex_genv_def ex_initial_overall ex_agent_def Let_def)
  ultimately show ?thesis by blast
qed

section \<open>The generation loop: what it leaves alone\<close>

lemma engine_frame_refl [simp]: "engine_frame s s"
  by (simp add: engine_frame_def)

lemma engine_frame_trans: "engine_frame s s' \<Longrightarrow> engine_frame s' s'' \<Longrightarrow> engine_frame s s''"
  by (simp add: engine_frame_def)

lemma cycle_frame_refl [simp]: "cycle_frame c c"
  by (simp add: cycle_frame_def)

lemma cycle_frame_trans: "cycle_frame c c' \<Longrightarrow> cycle_frame c' c'' \<Longrightarrow> cycle_frame c c''"
  by (simp add: cycle_frame_def)

lemma set_phase_frame:
  "engine_frame (snd cs) (snd (set_phase ph cs))"
  "cycle_frame (fst cs) (fst (set_phase ph cs))"
  by (simp_all add: set_phase_def Let_def engine_frame_def cycle_frame_def)

lemma evaluatePopulation_frame: "engine_frame s (snd (evaluatePopulation w envs s))"
  by (simp add: evaluatePopulation_def Let_def engine_frame_def split: option.splits)

lemma performMutation_frame: "engine_frame s (snd (performMutation genv as s))"
  by (simp add: performMutation_def Let_def engine_frame_def)

lemma replacePopulation_frame: "engine_frame s (replacePopulation cfg genv new s)"
  by (simp add: replacePopulation_def Let_def engine_frame_def split: option.splits)

lemma updateCycleResults_frame:
  "engine_frame (snd cs) (snd (snd (updateCycleResults genv cs)))"
  "cycle_frame (fst cs) (fst (snd (updateCycleResults genv cs)))"
  by (simp_all add: updateCycleResults_def Let_def engine_frame_def cycle_frame_def
      split: option.splits)

lemma runGeneration_frame:
  "engine_frame (snd cs) (snd (snd (runGeneration cfg w genv cs)))
   \<and> cycle_frame (fst cs) (fst (snd (runGeneration cfg w genv cs)))"
proof -
  let ?cs1 = "set_phase Evaluation cs"
  let ?ev = "evaluatePopulation w (evalEnvs genv) (snd ?cs1)"
  let ?cs2 = "set_phase Selection (fst ?cs1, snd ?ev)"
  let ?cs3 = "set_phase Crossover ?cs2"
  let ?cs4 = "set_phase Mutation ?cs3"
  have e1: "engine_frame (snd cs) (snd ?ev)"
    using set_phase_frame(1) [of cs Evaluation] evaluatePopulation_frame [of "snd ?cs1" w "evalEnvs genv"]
    by (rule engine_frame_trans)
  have c1: "cycle_frame (fst cs) (fst ?cs1)" by (rule set_phase_frame)
  have e2: "engine_frame (snd cs) (snd ?cs2)"
    using e1 set_phase_frame(1) [of "(fst ?cs1, snd ?ev)" Selection]
    by (auto intro: engine_frame_trans)
  have c2: "cycle_frame (fst cs) (fst ?cs2)"
    using c1 set_phase_frame(2) [of "(fst ?cs1, snd ?ev)" Selection]
    by (auto intro: cycle_frame_trans)
  have e4: "engine_frame (snd cs) (snd ?cs4)"
    using e2 set_phase_frame(1) [of ?cs2 Crossover] set_phase_frame(1) [of ?cs3 Mutation]
    by (blast intro: engine_frame_trans)
  have c4: "cycle_frame (fst cs) (fst ?cs4)"
    using c2 set_phase_frame(2) [of ?cs2 Crossover] set_phase_frame(2) [of ?cs3 Mutation]
    by (blast intro: cycle_frame_trans)
  have rest: "engine_frame (snd cs) (snd (snd (updateCycleResults genv (fst cs5, s6))))
      \<and> cycle_frame (fst cs) (fst (snd (updateCycleResults genv (fst cs5, s6))))"
    if "mu = performMutation genv off (snd ?cs4)"
      and "cs5 = set_phase Replacement (fst ?cs4, snd mu)"
      and "s6 = replacePopulation cfg genv (fst mu) (snd cs5)"
    for off mu cs5 s6
  proof -
    have "engine_frame (snd cs) (snd mu)"
      using e4 performMutation_frame [of "snd ?cs4" genv off] that(1)
      by (auto intro: engine_frame_trans)
    then have "engine_frame (snd cs) (snd cs5)"
      using set_phase_frame(1) [of "(fst ?cs4, snd mu)" Replacement] that(2)
      by (auto intro: engine_frame_trans)
    then have "engine_frame (snd cs) s6"
      using replacePopulation_frame [of "snd cs5" cfg genv "fst mu"] that(3)
      by (auto intro: engine_frame_trans)
    then have a: "engine_frame (snd cs) (snd (snd (updateCycleResults genv (fst cs5, s6))))"
      using updateCycleResults_frame(1) [of "(fst cs5, s6)" genv]
      by (auto intro: engine_frame_trans)
    have "cycle_frame (fst cs) (fst cs5)"
      using c4 set_phase_frame(2) [of "(fst ?cs4, snd mu)" Replacement] that(2)
      by (auto intro: cycle_frame_trans)
    then have "cycle_frame (fst cs) (fst (snd (updateCycleResults genv (fst cs5, s6))))"
      using updateCycleResults_frame(2) [of "(fst cs5, s6)" genv]
      by (auto intro: cycle_frame_trans)
    with a show ?thesis by simp
  qed
  show ?thesis
    unfolding runGeneration_def Let_def
    using e1 c1 e2 c2 rest
    by (auto split: option.splits sum.splits)
qed

lemma shouldStop_frame: "engine_frame s (s \<lparr> shouldStop := b \<rparr>)"
  by (simp add: engine_frame_def)

lemma run_loop_frame:
  "engine_frame (snd cs) (snd (snd (run_loop cfg w envs g k cs)))
   \<and> cycle_frame (fst cs) (fst (snd (run_loop cfg w envs g k cs)))"
proof (induction k arbitrary: g cs)
  case 0
  then show ?case by simp
next
  case (Suc k)
  let ?s0 = "(snd cs) \<lparr> shouldStop := stopRequested (envs g) \<rparr>"
  let ?res = "runGeneration cfg w (envs g) (fst cs, ?s0)"
  have r: "engine_frame (snd cs) (snd (snd ?res)) \<and> cycle_frame (fst cs) (fst (snd ?res))"
    using runGeneration_frame [of "(fst cs, ?s0)" cfg w "envs g"]
      shouldStop_frame [of "snd cs" "stopRequested (envs g)"]
    by (auto intro: engine_frame_trans)
  have n: "engine_frame (snd cs) (snd (snd (run_loop cfg w envs (Suc g) k (snd ?res))))
     \<and> cycle_frame (fst cs) (fst (snd (run_loop cfg w envs (Suc g) k (snd ?res))))"
    using r Suc.IH [where g = "Suc g" and cs = "snd ?res"]
    by (blast intro: engine_frame_trans cycle_frame_trans)
  show ?case
    using r n by (auto simp: Let_def split: option.splits sum.splits)
qed

section \<open>Cycles and \<open>evolve\<close>\<close>

lemma runEvolutionCycle_frame:
  "engine_frame s (snd (runEvolutionCycle cfg w env n s))"
proof -
  define cycle where "cycle =
     \<lparr> cycle_id = generateCycleId (cycleIdSrc env),
       cycle_generation = totalGenerations (history s) + 1,
       startTime = startNow env, endTime = None, phase = Initialization,
       cycle_population = currentPopulation s, cycle_mutations = [],
       results = \<lparr> improved = 0, degraded = 0, unchanged = 0, failed = 0,
                   averageFitnessChange = 0 \<rparr> \<rparr>"
  let ?res = "run_loop cfg w (gens env) 0 n (cycle, s \<lparr> currentCycle := Some cycle \<rparr>)"
  have "engine_frame (s \<lparr> currentCycle := Some cycle \<rparr>) (snd (snd ?res))"
    using run_loop_frame [of "(cycle, s \<lparr> currentCycle := Some cycle \<rparr>)" cfg w "gens env" 0 n]
    by simp
  then have "engine_frame s ((snd (snd ?res)) \<lparr> currentCycle := None \<rparr>)"
    by (simp add: engine_frame_def)
  then show ?thesis
    unfolding runEvolutionCycle_def Let_def cycle_def [symmetric]
    by (simp split: option.splits)
qed

lemma runEvolutionCycle_result:
  assumes "fst (runEvolutionCycle cfg w env n s) = Inr c"
  shows "phase c = Completed \<and> endTime c = Some (endNow env)
         \<and> cycle_generation c = totalGenerations (history s) + 1
         \<and> cycle_population c = currentPopulation s"
proof -
  define cycle where "cycle =
     \<lparr> cycle_id = generateCycleId (cycleIdSrc env),
       cycle_generation = totalGenerations (history s) + 1,
       startTime = startNow env, endTime = None, phase = Initialization,
       cycle_population = currentPopulation s, cycle_mutations = [],
       results = \<lparr> improved = 0, degraded = 0, unchanged = 0, failed = 0,
                   averageFitnessChange = 0 \<rparr> \<rparr>"
  let ?res = "run_loop cfg w (gens env) 0 n (cycle, s \<lparr> currentCycle := Some cycle \<rparr>)"
  have fr: "cycle_frame cycle (fst (snd ?res))"
    using run_loop_frame [of "(cycle, s \<lparr> currentCycle := Some cycle \<rparr>)" cfg w "gens env" 0 n]
    by simp
  from assms have "c = (fst (snd ?res)) \<lparr> phase := Completed, endTime := Some (endNow env) \<rparr>"
    unfolding runEvolutionCycle_def Let_def cycle_def [symmetric]
    by (auto split: option.splits)
  with fr show ?thesis by (simp add: cycle_frame_def cycle_def)
qed

lemma runEvolutionCycle_currentCycle:
  "currentCycle (snd (runEvolutionCycle cfg w env n s)) = None"
  by (simp add: runEvolutionCycle_def Let_def split: option.splits)

lemma archive_loop_frame: "engine_frame s (snd (archive_loop env reason i ms s))"
proof (induction ms arbitrary: i s)
  case Nil
  then show ?case by simp
next
  case (Cons m ms)
  have "engine_frame s (snd (archive_loop env reason (Suc i) ms (s \<lparr> archive := ar \<rparr>)))" for ar
    using Cons.IH [where i = "Suc i" and s = "s \<lparr> archive := ar \<rparr>"] by (simp add: engine_frame_def)
  then show ?case by (auto split: sum.splits)
qed

lemma archiveBestAgents_frame: "engine_frame s (snd (archiveBestAgents env c s))"
proof -
  have "engine_frame s (snd (archive_loop env reason 0 ms (s \<lparr> heap := h \<rparr>)))" for reason ms h
    using archive_loop_frame [of "s \<lparr> heap := h \<rparr>" env reason 0 ms] by (simp add: engine_frame_def)
  then show ?thesis
    by (simp add: archiveBestAgents_def split: option.splits)
qed

lemma evolve_body_result:
  assumes "fst (evolve_body cfg w env n s) = Inr c"
  shows "phase c = Completed \<and> endTime c = Some (endNow env)
         \<and> cycle_generation c = totalGenerations (history s) + 1
         \<and> totalGenerations (history (snd (evolve_body cfg w env n s)))
             = totalGenerations (history s) + n
         \<and> cycles (history (snd (evolve_body cfg w env n s))) = cycles (history s) @ [c]"
proof -
  let ?run = "runEvolutionCycle cfg w env n s"
  from assms have run: "fst ?run = Inr c"
    by (auto simp: evolve_body_def Let_def split: sum.splits option.splits)
  let ?ar = "archiveBestAgents env c (snd ?run)"
  from assms run have ar: "fst ?ar = None"
    by (auto simp: evolve_body_def Let_def split: sum.splits option.splits)
  have fr: "engine_frame s (snd ?ar)"
    using runEvolutionCycle_frame [of s cfg w env n] archiveBestAgents_frame [of "snd ?run" env c]
    by (rule engine_frame_trans)
  have "snd (evolve_body cfg w env n s) =
          (snd ?ar) \<lparr> history := (history (snd ?ar))
             \<lparr> cycles := cycles (history (snd ?ar)) @ [c],
               totalGenerations := totalGenerations (history (snd ?ar)) + n \<rparr> \<rparr>"
    using run ar by (simp add: evolve_body_def Let_def)
  with fr runEvolutionCycle_result [OF run] show ?thesis
    by (simp add: engine_frame_def)
qed

lemma evolve_body_isRunning:
  "isRunning (snd (evolve_body cfg w env n s)) = isRunning s"
proof -
  let ?run = "runEvolutionCycle cfg w env n s"
  have a: "isRunning (snd ?run) = isRunning s"
    using runEvolutionCycle_frame [of s cfg w env n] by (simp add: engine_frame_def)
  have b: "isRunning (snd (archiveBestAgents env c (snd ?run))) = isRunning s" for c
    using archiveBestAgents_frame [of "snd ?run" env c] a by (simp add: engine_frame_def)
  show ?thesis
    using a b by (simp add: evolve_body_def Let_def split: sum.splits option.splits)
qed

lemma evolve_running: "isRunning s \<Longrightarrow> evolve cfg w env n s = (Inl AlreadyRunning, s)"
  by (simp add: evolve_def)

lemma evolve_result:
  assumes "\<not> isRunning s" and "evolve cfg w env n s = (Inr c, s')"
  shows "phase c = Completed \<and> endTime c = Some (endNow env) \<and> \<not> isRunning s'
         \<and> cycle_generation c = totalGenerations (history s) + 1
         \<and> totalGenerations (history s') = totalGenerations (history s) + n
         \<and> cycles (history s') = cycles (history s) @ [c]"
proof -
  let ?s1 = "s \<lparr> isRunning := True, shouldStop := False \<rparr>"
  let ?res = "evolve_body cfg w env n ?s1"
  from assms have c: "fst ?res = Inr c" and s': "s' = (snd ?res) \<lparr> isRunning := False \<rparr>"
    by (simp_all add: evolve_def Let_def)
  from evolve_body_result [OF c] s' show ?thesis by simp
qed

section \<open>A ready engine completes its cycle\<close>

lemma evaluate_members_ok:
  "fst (evaluate_members w envs i ms) = None
   \<and> map agent (snd (evaluate_members w envs i ms)) = map agent ms"
proof (induction ms arbitrary: i)
  case Nil
  then show ?case by simp
next
  case (Cons m ms)
  obtain f where "evaluate w (envs i) (agent m) = Inr f" using evaluate_Inr by blast
  with Cons.IH [of "Suc i"] show ?case by (simp add: Let_def)
qed

lemma evaluatePopulation_ok: "fst (evaluatePopulation w envs s) = None"
  using evaluate_members_ok
  by (simp add: evaluatePopulation_def Let_def split: option.splits)

lemma loop_inv_currentCycle [simp]:
  "loop_inv r0 A n (s \<lparr> currentCycle := c \<rparr>) = loop_inv r0 A n s"
  by (simp add: loop_inv_def members_at_def history_refs_def)

lemma loop_inv_shouldStop [simp]:
  "loop_inv r0 A n (s \<lparr> shouldStop := b \<rparr>) = loop_inv r0 A n s"
  by (simp add: loop_inv_def members_at_def history_refs_def)

lemma loop_inv_set_phase [simp]:
  "loop_inv r0 A n (snd (set_phase ph cs)) = loop_inv r0 A n (snd cs)"
  by (simp add: set_phase_def Let_def)

lemma cycle_population_set_phase [simp]:
  "cycle_population (fst (set_phase ph cs)) = cycle_population (fst cs)"
  by (simp add: set_phase_def Let_def)

lemma history_refs_mono:
  assumes "history_refs s" and "cycles (history s') = cycles (history s)"
    and "\<And>r. heap s r \<noteq> None \<Longrightarrow> heap s' r \<noteq> None"
  shows "history_refs s'"
  unfolding history_refs_def
proof
  fix c assume "c \<in> set (cycles (history s'))"
  then have "c \<in> set (cycles (history s))" by (simp only: assms(2))
  with assms(1) obtain r where "cycle_population c = Some r" "heap s r \<noteq> None"
    unfolding history_refs_def by blast
  with assms(3) show "\<exists>r. cycle_population c = Some r \<and> heap s' r \<noteq> None" by blast
qed

lemma loop_inv_heap_update:
  assumes "loop_inv r0 A n s" and "heap s r = Some p"
    and "agent ` set (agents p') = agent ` set (agents p)"
    and "length (agents p') = length (agents p)"
  shows "loop_inv r0 A n (s \<lparr> heap := (heap s)(r \<mapsto> p') \<rparr>)"
proof -
  from assms(1) obtain p0 where p0: "heap s r0 = Some p0" "agent ` set (agents p0) = A"
      "length (agents p0) = n"
    by (auto simp: loop_inv_def members_at_def)
  have "members_at r0 A n (s \<lparr> heap := (heap s)(r \<mapsto> p') \<rparr>)"
  proof (cases "r = r0")
    case True
    with p0 assms(2) have "p = p0" by simp
    with True p0 assms(3,4) show ?thesis by (simp add: members_at_def)
  next
    case False
    with p0 show ?thesis by (simp add: members_at_def)
  qed
  moreover have "history_refs (s \<lparr> heap := (heap s)(r \<mapsto> p') \<rparr>)"
  proof (rule history_refs_mono)
    show "history_refs s" using assms(1) by (simp add: loop_inv_def)
  qed simp_all
  moreover have "r0 < next_ref s" using assms(1) by (simp add: loop_inv_def)
  moreover have "\<exists>r'. currentPopulation s = Some r' \<and> r' < next_ref s
       \<and> ((heap s)(r \<mapsto> p')) r' \<noteq> None"
    using assms(1) by (auto simp: loop_inv_def)
  ultimately show ?thesis by (simp add: loop_inv_def)
qed

lemma evaluatePopulation_inv:
  assumes "loop_inv r0 A n s"
  shows "loop_inv r0 A n (snd (evaluatePopulation w envs s))"
proof -
  from assms obtain r p where r: "currentPopulation s = Some r" "heap s r = Some p"
    by (auto simp: loop_inv_def)
  let ?res = "evaluate_members w envs 0 (agents p)"
  let ?p' = "p \<lparr> agents := snd ?res, statistics := calculateStatistics (snd ?res) \<rparr>"
  have ok: "fst ?res = None" "map agent (snd ?res) = map agent (agents p)"
    using evaluate_members_ok [of w envs 0 "agents p"] by simp_all
  have eq: "snd (evaluatePopulation w envs s) = s \<lparr> heap := (heap s)(r \<mapsto> ?p') \<rparr>"
    using r ok(1) by (simp add: evaluatePopulation_def Let_def)
  have "set (map agent (snd ?res)) = set (map agent (agents p))"
    by (simp only: ok(2))
  then have "agent ` set (snd ?res) = agent ` set (agents p)"
    by (simp only: set_map)
  then have a: "agent ` set (agents ?p') = agent ` set (agents p)"
    by simp
  have "length (map agent (snd ?res)) = length (map agent (agents p))"
    by (simp only: ok(2))
  then have l: "length (agents ?p') = length (agents p)" by simp
  from loop_inv_heap_update [OF assms r(2) a l] show ?thesis
    by (simp only: eq)
qed

lemma performMutation_inv:
  assumes "loop_inv r0 A n s"
  shows "loop_inv r0 A n (snd (performMutation genv as s))"
proof -
  let ?s' = "snd (performMutation genv as s)"
  have same: "heap ?s' = heap s" "next_ref ?s' = next_ref s"
    "currentPopulation ?s' = currentPopulation s" "cycles (history ?s') = cycles (history s)"
    by (simp_all add: performMutation_def Let_def)
  have "history_refs ?s'"
    by (rule history_refs_mono [of s]) (use assms same in \<open>simp_all add: loop_inv_def\<close>)
  with assms same show ?thesis by (simp add: loop_inv_def members_at_def)
qed

lemma replacePopulation_inv:
  assumes "loop_inv r0 A n s"
  shows "loop_inv r0 A n (replacePopulation cfg genv new s)"
proof -
  from assms obtain r p where r: "currentPopulation s = Some r" "heap s r = Some p"
    by (auto simp: loop_inv_def)
  define newPop where "newPop =
    createPopulation (fitnessDraws genv) (newPopId genv) (newPopNow genv)
      (js_slice0 (elites cfg p @ new) (populationSize cfg)) (pop_generation p + 1)"
  let ?s1 = "s \<lparr> heap := (heap s)(r \<mapsto> p \<lparr> agents := sortedAgents p \<rparr>) \<rparr>"
  have eq: "replacePopulation cfg genv new s =
      ?s1 \<lparr> heap := (heap ?s1)(next_ref s \<mapsto> newPop), next_ref := Suc (next_ref s),
             currentPopulation := Some (next_ref s) \<rparr>"
    by (simp add: replacePopulation_def r Let_def newPop_def)
  have a: "agent ` set (agents (p \<lparr> agents := sortedAgents p \<rparr>)) = agent ` set (agents p)"
    by (simp add: sortedAgents_def)
  have l: "length (agents (p \<lparr> agents := sortedAgents p \<rparr>)) = length (agents p)"
    by (simp add: sortedAgents_def)
  from loop_inv_heap_update [OF assms r(2) a l] have i1: "loop_inv r0 A n ?s1" .
  then have lt: "r0 < next_ref s" by (simp add: loop_inv_def)
  let ?s2 = "?s1 \<lparr> heap := (heap ?s1)(next_ref s \<mapsto> newPop), next_ref := Suc (next_ref s),
             currentPopulation := Some (next_ref s) \<rparr>"
  have m: "members_at r0 A n ?s2"
    using i1 lt by (simp add: loop_inv_def members_at_def)
  have h: "history_refs ?s2"
    by (rule history_refs_mono [of ?s1]) (use i1 in \<open>simp_all add: loop_inv_def\<close>)
  have "loop_inv r0 A n ?s2"
    using m h lt by (simp add: loop_inv_def)
  then show ?thesis by (simp only: eq)
qed

lemma updateCycleResults_ok:
  assumes "cycle_population (fst cs) = Some r0" and "heap (snd cs) r0 \<noteq> None"
  shows "fst (updateCycleResults genv cs) = None"
  using assms by (auto simp: updateCycleResults_def Let_def)

lemma updateCycleResults_inv:
  "loop_inv r0 A n (snd cs) \<Longrightarrow> loop_inv r0 A n (snd (snd (updateCycleResults genv cs)))"
  by (simp add: updateCycleResults_def Let_def split: option.splits)

lemma updateCycleResults_population:
  "cycle_population (fst (snd (updateCycleResults genv cs))) = cycle_population (fst cs)"
  using updateCycleResults_frame(2) [of cs genv] by (simp add: cycle_frame_def)

lemma select_ok:
  assumes "as \<noteq> [] \<or> cnt \<le> 0"
  shows "\<exists>sel. select strategy env as cnt = Inr sel"
  using tournamentSelection_length [OF assms]
  by (cases strategy) (auto simp: select_def)

lemma selectParents_ok: "\<exists>ps. selectParents cfg senv s = Inr ps"
proof (cases "thePopulation s")
  case None
  then show ?thesis by (simp add: selectParents_def)
next
  case (Some p)
  have "agents p \<noteq> [] \<or> \<lfloor>fmul (real (length (agents p))) (crossoverRate cfg)\<rfloor> \<le> 0"
    by (cases "agents p") simp_all
  from select_ok [OF this] Some show ?thesis by (simp add: selectParents_def)
qed

lemma those_Some: "(\<forall>x \<in> set xs. f x \<noteq> None) \<Longrightarrow> \<exists>ys. those (map f xs) = Some ys"
  by (induction xs) auto

lemma hasConverged_ok:
  assumes "history_refs s"
  shows "\<exists>b. hasConverged cfg s = Inr b"
proof -
  let ?f = "\<lambda>c. case cycle_population c of
                   None \<Rightarrow> None
                 | Some r \<Rightarrow> map_option (\<lambda>p. averageFitness (statistics p)) (heap s r)"
  let ?recent = "drop (length (cycles (history s)) - 10) (cycles (history s))"
  have "\<forall>c \<in> set ?recent. ?f c \<noteq> None"
  proof
    fix c assume "c \<in> set ?recent"
    then have "c \<in> set (cycles (history s))" by (rule in_set_dropD)
    with assms obtain r where "cycle_population c = Some r" "heap s r \<noteq> None"
      unfolding history_refs_def by blast
    then show "?f c \<noteq> None" by auto
  qed
  from those_Some [OF this] obtain ys where "those (map ?f ?recent) = Some ys" by blast
  then show ?thesis by (auto simp: hasConverged_def Let_def)
qed

lemma loop_inv_next:
  "loop_inv r0 A n s \<Longrightarrow> heap s r0 \<noteq> None \<and> history_refs s"
  by (auto simp: loop_inv_def members_at_def)

lemma runGeneration_ok:
  assumes "loop_inv r0 A n (snd cs)" and "cycle_population (fst cs) = Some r0"
  shows "fst (runGeneration cfg w genv cs) = None
         \<and> loop_inv r0 A n (snd (snd (runGeneration cfg w genv cs)))
         \<and> cycle_population (fst (snd (runGeneration cfg w genv cs))) = Some r0"
proof -
  let ?cs1 = "set_phase Evaluation cs"
  let ?ev = "evaluatePopulation w (evalEnvs genv) (snd ?cs1)"
  let ?cs2 = "set_phase Selection (fst ?cs1, snd ?ev)"
  obtain parents where ps: "selectParents cfg (selEnv genv) (snd ?cs2) = Inr parents"
    using selectParents_ok by blast
  let ?cs3 = "set_phase Crossover ?cs2"
  let ?cs4 = "set_phase Mutation ?cs3"
  let ?mu = "performMutation genv (performCrossover (childIds genv) 0 parents) (snd ?cs4)"
  let ?cs5 = "set_phase Replacement (fst ?cs4, snd ?mu)"
  let ?s6 = "replacePopulation cfg genv (fst ?mu) (snd ?cs5)"
  have eq: "runGeneration cfg w genv cs = updateCycleResults genv (fst ?cs5, ?s6)"
    unfolding runGeneration_def Let_def
    by (simp add: evaluatePopulation_ok ps)
  have i2: "loop_inv r0 A n (snd ?ev)"
    using assms(1) by (simp add: evaluatePopulation_inv)
  then have i4: "loop_inv r0 A n (snd ?cs4)" by simp
  then have "loop_inv r0 A n (snd ?mu)" by (rule performMutation_inv)
  then have "loop_inv r0 A n (snd ?cs5)" by simp
  then have i6: "loop_inv r0 A n ?s6" by (rule replacePopulation_inv)
  have c5: "cycle_population (fst ?cs5) = Some r0" using assms(2) by simp
  have "fst (updateCycleResults genv (fst ?cs5, ?s6)) = None"
    by (rule updateCycleResults_ok [of _ r0]) (use c5 i6 loop_inv_next in \<open>simp_all\<close>)
  moreover have "loop_inv r0 A n (snd (snd (updateCycleResults genv (fst ?cs5, ?s6))))"
    using i6 by (simp add: updateCycleResults_inv)
  moreover have "cycle_population (fst (snd (updateCycleResults genv (fst ?cs5, ?s6)))) = Some r0"
    using c5 by (simp only: updateCycleResults_population fst_conv)
  ultimately show ?thesis by (simp only: eq)
qed

lemma run_loop_ok:
  assumes "loop_inv r0 A n (snd cs)" and "cycle_population (fst cs) = Some r0"
  shows "fst (run_loop cfg w envs g k cs) = None
         \<and> loop_inv r0 A n (snd (snd (run_loop cfg w envs g k cs)))
         \<and> cycle_population (fst (snd (run_loop cfg w envs g k cs))) = Some r0"
  using assms
proof (induction k arbitrary: g cs)
  case 0
  then show ?case by simp
next
  case (Suc k)
  let ?s0 = "(snd cs) \<lparr> shouldStop := stopRequested (envs g) \<rparr>"
  let ?res = "runGeneration cfg w (envs g) (fst cs, ?s0)"
  have r: "fst ?res = None \<and> loop_inv r0 A n (snd (snd ?res))
      \<and> cycle_population (fst (snd ?res)) = Some r0"
    by (rule runGeneration_ok) (use Suc.prems in \<open>simp_all\<close>)
  then obtain b where b: "hasConverged cfg (snd (snd ?res)) = Inr b"
    using hasConverged_ok loop_inv_next by blast
  have n: "fst (run_loop cfg w envs (Suc g) k (snd ?res)) = None
         \<and> loop_inv r0 A n (snd (snd (run_loop cfg w envs (Suc g) k (snd ?res))))
         \<and> cycle_population (fst (snd (run_loop cfg w envs (Suc g) k (snd ?res)))) = Some r0"
    using r by (intro Suc.IH) simp_all
  show ?case
    using Suc.prems r b n by (simp add: Let_def)
qed

lemma archive_loop_ok:
  "\<forall>m \<in> set ms. hasMethods (agent m) \<Longrightarrow> fst (archive_loop env reason i ms s) = None"
  by (induction ms arbitrary: i s) (simp_all add: archiveAgent_def serialize_def Let_def)

lemma set_js_slice0: "set (js_slice0 xs n) \<subseteq> set xs"
  by (auto simp: js_slice0_def dest: in_set_takeD)

lemma archiveBestAgents_ok:
  assumes "cycle_population c = Some r0" and "methods_at r0 s"
  shows "fst (archiveBestAgents env c s) = None"
proof -
  from assms(2) obtain p where p: "heap s r0 = Some p" "\<forall>m \<in> set (agents p). hasMethods (agent m)"
    by (auto simp: methods_at_def)
  have "set (js_slice0 (sortedAgents p) 5) \<subseteq> set (agents p)"
    using set_js_slice0 [of "sortedAgents p" 5] by (simp add: sortedAgents_def)
  with p(2) have "\<forall>m \<in> set (js_slice0 (sortedAgents p) 5). hasMethods (agent m)" by blast
  from archive_loop_ok [OF this] show ?thesis
    by (simp add: archiveBestAgents_def assms(1) p(1))
qed

lemma evolve_completes:
  assumes "\<not> isRunning s" and "engine_ready s"
  shows "\<exists>c s'. evolve cfg w env n s = (Inr c, s')"
proof -
  from assms(2) obtain r0 where r0: "currentPopulation s = Some r0" "r0 < next_ref s"
    "methods_at r0 s" "history_refs s"
    by (auto simp: engine_ready_def)
  from r0(3) obtain p0 where p0: "heap s r0 = Some p0"
      "\<forall>m \<in> set (agents p0). hasMethods (agent m)"
    by (auto simp: methods_at_def)
  define A where "A = agent ` set (agents p0)"
  define m where "m = length (agents p0)"
  let ?s1 = "s \<lparr> isRunning := True, shouldStop := False \<rparr>"
  define cycle where "cycle =
     \<lparr> cycle_id = generateCycleId (cycleIdSrc env),
       cycle_generation = totalGenerations (history ?s1) + 1,
       startTime = startNow env, endTime = None, phase = Initialization,
       cycle_population = currentPopulation ?s1, cycle_mutations = [],
       results = \<lparr> improved = 0, degraded = 0, unchanged = 0, failed = 0,
                   averageFitnessChange = 0 \<rparr> \<rparr>"
  let ?cs = "(cycle, ?s1 \<lparr> currentCycle := Some cycle \<rparr>)"
  have inv: "loop_inv r0 A m (snd ?cs)"
    using r0 p0 by (simp add: loop_inv_def members_at_def history_refs_def A_def m_def)
  have cp: "cycle_population (fst ?cs) = Some r0" by (simp add: cycle_def r0(1))
  let ?res = "run_loop cfg w (gens env) 0 n ?cs"
  from run_loop_ok [OF inv cp, of cfg w "gens env" 0 n]
  have ok: "fst ?res = None" "loop_inv r0 A m (snd (snd ?res))"
    "cycle_population (fst (snd ?res)) = Some r0"
    by simp_all
  let ?c = "(fst (snd ?res)) \<lparr> phase := Completed, endTime := Some (endNow env) \<rparr>"
  let ?s2 = "(snd (snd ?res)) \<lparr> currentCycle := None \<rparr>"
  have run: "runEvolutionCycle cfg w env n ?s1 = (Inr ?c, ?s2)"
    unfolding runEvolutionCycle_def Let_def cycle_def [symmetric]
    using ok(1) by simp
  from ok(2) obtain p where p: "heap (snd (snd ?res)) r0 = Some p" "agent ` set (agents p) = A"
    by (auto simp: loop_inv_def members_at_def)
  have "\<forall>x \<in> set (agents p). hasMethods (agent x)"
  proof
    fix x assume "x \<in> set (agents p)"
    then have "agent x \<in> agent ` set (agents p0)" using p(2) by (auto simp: A_def)
    then obtain x0 where "x0 \<in> set (agents p0)" "agent x = agent x0" by blast
    with p0(2) show "hasMethods (agent x)" by simp
  qed
  with p(1) have "methods_at r0 ?s2" by (simp add: methods_at_def)
  moreover have "cycle_population ?c = Some r0" using ok(3) by simp
  ultimately have ar: "fst (archiveBestAgents env ?c ?s2) = None"
    using archiveBestAgents_ok by blast
  have "fst (evolve_body cfg w env n ?s1) = Inr ?c"
    using run ar by (simp add: evolve_body_def Let_def)
  then show ?thesis
    using assms(1) by (simp add: evolve_def Let_def)
qed

section \<open>Generations that ran and generations that were requested\<close>

lemma shouldStop_set_phase [simp]:
  "shouldStop (snd (set_phase ph cs)) = shouldStop (snd cs)"
  by (simp add: set_phase_def Let_def)

lemma shouldStop_evaluatePopulation [simp]:
  "shouldStop (snd (evaluatePopulation w envs s)) = shouldStop s"
  by (simp add: evaluatePopulation_def Let_def split: option.splits)

lemma shouldStop_performMutation [simp]:
  "shouldStop (snd (performMutation genv as s)) = shouldStop s"
  by (simp add: performMutation_def Let_def)

lemma shouldStop_replacePopulation [simp]:
  "shouldStop (replacePopulation cfg genv new s) = shouldStop s"
  by (simp add: replacePopulation_def Let_def split: option.splits)

lemma shouldStop_updateCycleResults [simp]:
  "shouldStop (snd (snd (updateCycleResults genv cs))) = shouldStop (snd cs)"
  by (simp add: updateCycleResults_def Let_def split: option.splits)

lemma currentGeneration_set_phase [simp]:
  "currentGeneration (snd (set_phase ph cs)) = currentGeneration (snd cs)"
  by (simp add: set_phase_def Let_def currentGeneration_def thePopulation_def
      split: option.splits)

lemma currentGeneration_evaluatePopulation [simp]:
  "currentGeneration (snd (evaluatePopulation w envs s)) = currentGeneration s"
  by (simp add: evaluatePopulation_def Let_def currentGeneration_def thePopulation_def
      split: option.splits)

lemma currentGeneration_performMutation [simp]:
  "currentGeneration (snd (performMutation genv as s)) = currentGeneration s"
  by (simp add: performMutation_def Let_def currentGeneration_def thePopulation_def
      split: option.splits)

lemma currentGeneration_replacePopulation:
  "currentGeneration s = Some g \<Longrightarrow>
   currentGeneration (replacePopulation cfg genv new s) = Some (g + 1)"
  by (auto simp: currentGeneration_def replacePopulation_current)

lemma currentGeneration_updateCycleResults [simp]:
  "currentGeneration (snd (snd (updateCycleResults genv cs))) = currentGeneration (snd cs)"
  by (simp add: updateCycleResults_def Let_def currentGeneration_def thePopulation_def
      split: option.splits)

lemma runGeneration_eq:
  "\<exists>parents.
     runGeneration cfg w genv cs =
       (let cs4 = set_phase Mutation (set_phase Crossover
                    (set_phase Selection (fst (set_phase Evaluation cs),
                       snd (evaluatePopulation w (evalEnvs genv) (snd (set_phase Evaluation cs))))));
            mu = performMutation genv (performCrossover (childIds genv) 0 parents) (snd cs4);
            cs5 = set_phase Replacement (fst cs4, snd mu)
        in updateCycleResults genv (fst cs5, replacePopulation cfg genv (fst mu) (snd cs5)))"
proof -
  let ?cs1 = "set_phase Evaluation cs"
  let ?ev = "evaluatePopulation w (evalEnvs genv) (snd ?cs1)"
  let ?cs2 = "set_phase Selection (fst ?cs1, snd ?ev)"
  obtain parents where ps: "selectParents cfg (selEnv genv) (snd ?cs2) = Inr parents"
    using selectParents_ok by blast
  show ?thesis
    apply (rule exI [of _ parents])
    unfolding runGeneration_def Let_def
    by (simp add: evaluatePopulation_ok ps)
qed

lemma runGeneration_counts:
  assumes "currentGeneration (snd cs) = Some g"
  shows "currentGeneration (snd (snd (runGeneration cfg w genv cs))) = Some (g + 1)
         \<and> shouldStop (snd (snd (runGeneration cfg w genv cs))) = shouldStop (snd cs)"
proof -
  from runGeneration_eq [of cfg w genv cs] obtain parents where
    eq: "runGeneration cfg w genv cs =
       (let cs4 = set_phase Mutation (set_phase Crossover
                    (set_phase Selection (fst (set_phase Evaluation cs),
                       snd (evaluatePopulation w (evalEnvs genv) (snd (set_phase Evaluation cs))))));
            mu = performMutation genv (performCrossover (childIds genv) 0 parents) (snd cs4);
            cs5 = set_phase Replacement (fst cs4, snd mu)
        in updateCycleResults genv (fst cs5, replacePopulation cfg genv (fst mu) (snd cs5)))"
    by blast
  show ?thesis
    unfolding eq Let_def
    using assms by (simp add: currentGeneration_replacePopulation)
qed

lemma currentGeneration_cong:
  "heap s' = heap s \<Longrightarrow> currentPopulation s' = currentPopulation s \<Longrightarrow>
   currentGeneration s' = currentGeneration s"
  by (simp add: currentGeneration_def thePopulation_def split: option.splits)

lemma run_loop_stopped:
  "shouldStop (snd cs) \<Longrightarrow> run_loop cfg w envs g k cs = (None, cs)"
  by (cases k) simp_all

lemma run_loop_stop_request:
  assumes "\<not> shouldStop (snd cs)" and "stopRequested (envs g)"
    and "currentGeneration (snd cs) = Some n"
  shows "currentGeneration (snd (snd (run_loop cfg w envs g (Suc k) cs))) = Some (n + 1)"
proof -
  let ?s0 = "(snd cs) \<lparr> shouldStop := stopRequested (envs g) \<rparr>"
  let ?res = "runGeneration cfg w (envs g) (fst cs, ?s0)"
  have "currentGeneration ?s0 = Some n"
    using assms(3) currentGeneration_cong [of ?s0 "snd cs"] by simp
  from runGeneration_counts [of "(fst cs, ?s0)" n cfg w "envs g"] this assms(2)
  have r: "currentGeneration (snd (snd ?res)) = Some (n + 1)" "shouldStop (snd (snd ?res))"
    by simp_all
  have "run_loop cfg w envs (Suc g) k (snd ?res) = (None, snd ?res)"
    using r(2) by (rule run_loop_stopped)
  with r(1) assms(1) show ?thesis
    by (simp add: Let_def split: option.splits sum.splits)
qed

lemma currentGeneration_archive_loop [simp]:
  "currentGeneration (snd (archive_loop env reason i ms s)) = currentGeneration s"
proof (induction ms arbitrary: i s)
  case Nil
  then show ?case by simp
next
  case (Cons m ms)
  have "currentGeneration (snd (archive_loop env reason (Suc i) ms (s \<lparr> archive := ar \<rparr>)))
          = currentGeneration s" for ar
    using Cons.IH [where i = "Suc i" and s = "s \<lparr> archive := ar \<rparr>"]
      currentGeneration_cong [of "s \<lparr> archive := ar \<rparr>" s]
    by simp
  then show ?case by (auto split: sum.splits)
qed

lemma currentGeneration_archiveBestAgents [simp]:
  "currentGeneration (snd (archiveBestAgents env c s)) = currentGeneration s"
proof -
  have "currentGeneration (s \<lparr> heap := (heap s)(r \<mapsto> p \<lparr> agents := as \<rparr>) \<rparr>) = currentGeneration s"
    if "heap s r = Some p" for r p as
    using that by (auto simp: currentGeneration_def thePopulation_def split: option.splits)
  then show ?thesis
    by (simp add: archiveBestAgents_def split: option.splits)
qed

lemma evolve_stop_request:
  assumes "\<not> isRunning s" and "stopRequested (gens env 0)" and "currentGeneration s = Some g"
  shows "currentGeneration (snd (evolve cfg w env (Suc k) s)) = Some (g + 1)"
proof -
  let ?s1 = "s \<lparr> isRunning := True, shouldStop := False \<rparr>"
  define cycle where "cycle =
     \<lparr> cycle_id = generateCycleId (cycleIdSrc env),
       cycle_generation = totalGenerations (history ?s1) + 1,
       startTime = startNow env, endTime = None, phase = Initialization,
       cycle_population = currentPopulation ?s1, cycle_mutations = [],
       results = \<lparr> improved = 0, degraded = 0, unchanged = 0, failed = 0,
                   averageFitnessChange = 0 \<rparr> \<rparr>"
  let ?cs = "(cycle, ?s1 \<lparr> currentCycle := Some cycle \<rparr>)"
  let ?res = "run_loop cfg w (gens env) 0 (Suc k) ?cs"
  have "currentGeneration (snd ?cs) = Some g"
    using assms(3) currentGeneration_cong [of "snd ?cs" s] by simp
  from run_loop_stop_request [of ?cs "gens env" 0 g cfg w k] this assms(2)
  have l: "currentGeneration (snd (snd ?res)) = Some (g + 1)" by simp
  let ?s2 = "(snd (snd ?res)) \<lparr> currentCycle := None \<rparr>"
  have s2: "snd (runEvolutionCycle cfg w env (Suc k) ?s1) = ?s2"
    unfolding runEvolutionCycle_def Let_def cycle_def [symmetric]
    by (simp split: option.splits)
  have g2: "currentGeneration ?s2 = Some (g + 1)"
    using l currentGeneration_cong [of ?s2 "snd (snd ?res)"] by simp
  have h: "currentGeneration (s' \<lparr> history := hh \<rparr>) = currentGeneration s'" for s' hh
    by (rule currentGeneration_cong) simp_all
  have "currentGeneration (snd (evolve_body cfg w env (Suc k) ?s1)) = Some (g + 1)"
    unfolding evolve_body_def Let_def
    using g2 by (simp add: s2 h split: sum.splits option.splits)
  moreover have "currentGeneration (s' \<lparr> isRunning := False \<rparr>) = currentGeneration s'" for s'
    by (rule currentGeneration_cong) simp_all
  ultimately show ?thesis
    using assms(1) by (simp add: evolve_def Let_def)
qed

section \<open>A cycle on a population that holds a copy\<close>

lemma archive_loop_fails:
  "\<exists>m \<in> set ms. \<not> hasMethods (agent m) \<Longrightarrow>
   fst (archive_loop env reason i ms s) = Some (TypeError ''agent.serialize is not a function'')"
proof (induction ms arbitrary: i s)
  case Nil
  then show ?case by simp
next
  case (Cons m ms)
  show ?case
  proof (cases "hasMethods (agent m)")
    case True
    with Cons.prems have "\<exists>m \<in> set ms. \<not> hasMethods (agent m)" by auto
    from Cons.IH [OF this] True show ?thesis
      by (simp add: archiveAgent_def serialize_def Let_def)
  next
    case False
    then show ?thesis by (simp add: archiveAgent_def serialize_def)
  qed
qed

lemma js_slice0_all: "int (length xs) \<le> n \<Longrightarrow> js_slice0 xs n = xs"
  by (simp add: js_slice0_def)

lemma archiveBestAgents_fails:
  assumes "cycle_population c = Some r0" and "heap s r0 = Some p"
    and "length (agents p) \<le> 5" and "\<exists>m \<in> set (agents p). \<not> hasMethods (agent m)"
  shows "fst (archiveBestAgents env c s) = Some (TypeError ''agent.serialize is not a function'')"
proof -
  have "js_slice0 (sortedAgents p) 5 = sortedAgents p"
    using assms(3) by (intro js_slice0_all) (simp add: sortedAgents_def)
  moreover have "\<exists>m \<in> set (sortedAgents p). \<not> hasMethods (agent m)"
    using assms(4) by (simp add: sortedAgents_def)
  ultimately show ?thesis
    using archive_loop_fails by (simp add: archiveBestAgents_def assms(1,2))
qed

text \<open>
  Whatever the generations do, a cycle that starts on a population of at most five
  members, one of them without its methods, ends in \<open>archiveBestAgents\<close> with a
  TypeError: \<open>evolve\<close> rejects and returns no cycle.
\<close>

lemma evolve_copy_fails:
  assumes "\<not> isRunning s" and "copy_in_population s" and "history_refs s"
  shows "fst (evolve cfg w env n s) = Inl (TypeError ''agent.serialize is not a function'')"
proof -
  from assms(2) obtain r0 p0 where r0: "currentPopulation s = Some r0" "r0 < next_ref s"
      "heap s r0 = Some p0" "length (agents p0) \<le> 5"
    and x0: "\<exists>m \<in> set (agents p0). \<not> hasMethods (agent m)"
    by (auto simp: copy_in_population_def)
  define A where "A = agent ` set (agents p0)"
  define m where "m = length (agents p0)"
  let ?s1 = "s \<lparr> isRunning := True, shouldStop := False \<rparr>"
  define cycle where "cycle =
     \<lparr> cycle_id = generateCycleId (cycleIdSrc env),
       cycle_generation = totalGenerations (history ?s1) + 1,
       startTime = startNow env, endTime = None, phase = Initialization,
       cycle_population = currentPopulation ?s1, cycle_mutations = [],
       results = \<lparr> improved = 0, degraded = 0, unchanged = 0, failed = 0,
                   averageFitnessChange = 0 \<rparr> \<rparr>"
  let ?cs = "(cycle, ?s1 \<lparr> currentCycle := Some cycle \<rparr>)"
  have inv: "loop_inv r0 A m (snd ?cs)"
    using r0 assms(3) by (simp add: loop_inv_def members_at_def history_refs_def A_def m_def)
  have cp: "cycle_population (fst ?cs) = Some r0" by (simp add: cycle_def r0(1))
  let ?res = "run_loop cfg w (gens env) 0 n ?cs"
  from run_loop_ok [OF inv cp, of cfg w "gens env" 0 n]
  have ok: "fst ?res = None" "loop_inv r0 A m (snd (snd ?res))"
    "cycle_population (fst (snd ?res)) = Some r0"
    by simp_all
  let ?c = "(fst (snd ?res)) \<lparr> phase := Completed, endTime := Some (endNow env) \<rparr>"
  let ?s2 = "(snd (snd ?res)) \<lparr> currentCycle := None \<rparr>"
  have run: "runEvolutionCycle cfg w env n ?s1 = (Inr ?c, ?s2)"
    unfolding runEvolutionCycle_def Let_def cycle_def [symmetric]
    using ok(1) by simp
  from ok(2) obtain p where p: "heap ?s2 r0 = Some p" "agent ` set (agents p) = A"
      "length (agents p) = m"
    by (auto simp: loop_inv_def members_at_def)
  from x0 obtain y where y: "y \<in> set (agents p0)" "\<not> hasMethods (agent y)" by blast
  then have "agent y \<in> agent ` set (agents p)" using p(2) by (auto simp: A_def)
  then obtain x where xx: "x \<in> set (agents p)" "agent x = agent y" by auto
  have x: "\<exists>x \<in> set (agents p). \<not> hasMethods (agent x)"
    using xx y(2) by (intro bexI [of _ x]) simp_all
  have "cycle_population ?c = Some r0" using ok(3) by simp
  from archiveBestAgents_fails [OF this p(1) _ x, of env] p(3) r0(4)
  have ar: "fst (archiveBestAgents env ?c ?s2)
              = Some (TypeError ''agent.serialize is not a function'')"
    by (simp add: m_def)
  have "fst (evolve_body cfg w env n ?s1)
          = Inl (TypeError ''agent.serialize is not a function'')"
    using run ar by (simp add: evolve_body_def Let_def)
  then show ?thesis
    using assms(1) by (simp add: evolve_def Let_def)
qed

section \<open>The state the first cycle leaves\<close>

lemma copy_in_population_cong:
  "heap s' = heap s \<Longrightarrow> currentPopulation s' = currentPopulation s \<Longrightarrow>
   next_ref s' = next_ref s \<Longrightarrow> copy_in_population s' = copy_in_population s"
  by (simp add: copy_in_population_def)

lemma archive_loop_heap:
  "heap (snd (archive_loop env reason i ms s)) = heap s
   \<and> currentPopulation (snd (archive_loop env reason i ms s)) = currentPopulation s
   \<and> next_ref (snd (archive_loop env reason i ms s)) = next_ref s"
proof (induction ms arbitrary: i s)
  case Nil
  then show ?case by simp
next
  case (Cons m ms)
  show ?case
    using Cons.IH [where i = "Suc i"] by (auto split: sum.splits)
qed

lemma archiveBestAgents_heap:
  "currentPopulation (snd (archiveBestAgents env c s)) = currentPopulation s
   \<and> next_ref (snd (archiveBestAgents env c s)) = next_ref s
   \<and> (\<forall>r p. heap s r = Some p \<longrightarrow>
        (\<exists>p'. heap (snd (archiveBestAgents env c s)) r = Some p'
              \<and> set (agents p') = set (agents p) \<and> length (agents p') = length (agents p)))"
proof (cases "cycle_population c")
  case None
  then show ?thesis by (simp add: archiveBestAgents_def)
next
  case (Some r0)
  show ?thesis
  proof (cases "heap s r0")
    case None
    with Some show ?thesis by (simp add: archiveBestAgents_def)
  next
    case (Some p0)
    let ?s1 = "s \<lparr> heap := (heap s)(r0 \<mapsto> p0 \<lparr> agents := sortedAgents p0 \<rparr>) \<rparr>"
    have eq: "snd (archiveBestAgents env c s) =
        snd (archive_loop env
               (''Generation '' @ string_of_nat (cycle_generation c) @ '' top performer'')
               0 (js_slice0 (sortedAgents p0) 5) ?s1)"
      using \<open>cycle_population c = Some r0\<close> Some by (simp add: archiveBestAgents_def)
    have "\<forall>r p. heap s r = Some p \<longrightarrow>
        (\<exists>p'. heap ?s1 r = Some p'
              \<and> set (agents p') = set (agents p) \<and> length (agents p') = length (agents p))"
      using Some by (auto simp: sortedAgents_def)
    then show ?thesis
      unfolding eq using archive_loop_heap [of env _ 0 _ ?s1] by simp
  qed
qed

lemma archiveBestAgents_copy:
  assumes "copy_in_population s"
  shows "copy_in_population (snd (archiveBestAgents env c s))"
proof -
  from assms obtain r p where r: "currentPopulation s = Some r" "r < next_ref s"
      "heap s r = Some p" "length (agents p) \<le> 5" "\<exists>m \<in> set (agents p). \<not> hasMethods (agent m)"
    by (auto simp: copy_in_population_def)
  from archiveBestAgents_heap [of env c s] r(3)
  obtain p' where "heap (snd (archiveBestAgents env c s)) r = Some p'"
      "set (agents p') = set (agents p)" "length (agents p') = length (agents p)"
    by blast
  with r archiveBestAgents_heap [of env c s] show ?thesis
    by (auto simp: copy_in_population_def)
qed

lemma performCrossover_copies:
  "\<forall>a \<in> set (performCrossover ids k parents). \<not> hasMethods a"
  by (induction ids k parents rule: performCrossover.induct)
     (simp_all add: crossover_def createChild_def)

lemma thePopulation_set_phase [simp]:
  "thePopulation (snd (set_phase ph cs)) = thePopulation (snd cs)"
  by (simp add: set_phase_def Let_def thePopulation_def split: option.splits)

lemma evaluatePopulation_thePopulation:
  assumes "thePopulation s = Some p"
  shows "\<exists>pe. thePopulation (snd (evaluatePopulation w envs s)) = Some pe
              \<and> length (agents pe) = length (agents p)"
proof -
  from assms obtain r where r: "currentPopulation s = Some r" "heap s r = Some p"
    by (auto simp: thePopulation_Some)
  have "length (map agent (snd (evaluate_members w envs 0 (agents p))))
          = length (map agent (agents p))"
    using evaluate_members_ok [of w envs 0 "agents p"] by simp
  then have "length (snd (evaluate_members w envs 0 (agents p))) = length (agents p)" by simp
  then show ?thesis
    using r by (auto simp: evaluatePopulation_def Let_def thePopulation_def split: option.splits)
qed

lemma next_ref_evaluatePopulation [simp]:
  "next_ref (snd (evaluatePopulation w envs s)) = next_ref s"
  by (simp add: evaluatePopulation_def Let_def split: option.splits)

lemma currentPopulation_evaluatePopulation [simp]:
  "currentPopulation (snd (evaluatePopulation w envs s)) = currentPopulation s"
  by (simp add: evaluatePopulation_def Let_def split: option.splits)

lemma performMutation_same [simp]:
  "heap (snd (performMutation genv as s)) = heap s"
  "currentPopulation (snd (performMutation genv as s)) = currentPopulation s"
  "next_ref (snd (performMutation genv as s)) = next_ref s"
  by (simp_all add: performMutation_def Let_def)

lemma set_phase_same [simp]:
  "heap (snd (set_phase ph cs)) = heap (snd cs)"
  "currentPopulation (snd (set_phase ph cs)) = currentPopulation (snd cs)"
  "next_ref (snd (set_phase ph cs)) = next_ref (snd cs)"
  by (simp_all add: set_phase_def Let_def)

lemma updateCycleResults_same [simp]:
  "heap (snd (snd (updateCycleResults genv cs))) = heap (snd cs)"
  "currentPopulation (snd (snd (updateCycleResults genv cs))) = currentPopulation (snd cs)"
  "next_ref (snd (snd (updateCycleResults genv cs))) = next_ref (snd cs)"
  by (simp_all add: updateCycleResults_def Let_def split: option.splits)

lemma performMutation_ex: "fst (performMutation ex_genv as s) = as"
proof -
  have "map (\<lambda>(i, a). a) (enumerate 0 as) = as"
    by (simp add: case_prod_unfold map_snd_enumerate)
  then show ?thesis by (simp add: performMutation_def Let_def ex_genv_def)
qed

text \<open>
  One generation with the example configuration on a population of four: one elite
  and the two children of the two selected parents form the next population.
\<close>

lemma runGeneration_copy:
  assumes "thePopulation (snd cs) = Some p" and "length (agents p) = 4"
    and "currentPopulation (snd cs) = Some r" and "r < next_ref (snd cs)"
  shows "copy_in_population (snd (snd (runGeneration ex_cfg w ex_genv cs)))"
proof -
  let ?cs1 = "set_phase Evaluation cs"
  let ?ev = "evaluatePopulation w (evalEnvs ex_genv) (snd ?cs1)"
  let ?cs2 = "set_phase Selection (fst ?cs1, snd ?ev)"
  have "thePopulation (snd ?cs1) = Some p" using assms(1) by simp
  from evaluatePopulation_thePopulation [OF this, of w "evalEnvs ex_genv"] assms(2)
  obtain pe where pe: "thePopulation (snd ?ev) = Some pe" "length (agents pe) = 4" by auto
  have tp2: "thePopulation (snd ?cs2) = Some pe" using pe(1) by simp
  define parents where "parents = rankSelection (agents pe) 2"
  have ps: "selectParents ex_cfg (selEnv ex_genv) (snd ?cs2) = Inr parents"
    by (simp add: selectParents_def pe select_def ex_cfg_def fmul_def fl_half
        parents_def)
  have lp: "length parents = 2" by (simp add: parents_def rank_length pe(2))
  let ?off = "performCrossover (childIds ex_genv) 0 parents"
  have lo: "length ?off = 2" by (simp add: performCrossover_length lp)
  have co: "\<forall>a \<in> set ?off. \<not> hasMethods a" by (rule performCrossover_copies)
  let ?cs3 = "set_phase Crossover ?cs2"
  let ?cs4 = "set_phase Mutation ?cs3"
  let ?mu = "performMutation ex_genv ?off (snd ?cs4)"
  let ?cs5 = "set_phase Replacement (fst ?cs4, snd ?mu)"
  let ?s6 = "replacePopulation ex_cfg ex_genv (fst ?mu) (snd ?cs5)"
  have eq: "runGeneration ex_cfg w ex_genv cs = updateCycleResults ex_genv (fst ?cs5, ?s6)"
    unfolding runGeneration_def Let_def
    by (simp add: evaluatePopulation_ok ps)
  have cur5: "currentPopulation (snd ?cs5) = Some r" using assms(3) by simp
  have nr5: "next_ref (snd ?cs5) = next_ref (snd cs)" by simp
  have "heap (snd ?cs5) = heap (snd ?ev)" by simp
  then have hp5: "heap (snd ?cs5) r = Some pe"
    using pe(1) assms(3) by (simp add: thePopulation_def)
  define new where "new = js_slice0 (elites ex_cfg pe @ ?off) (populationSize ex_cfg)"
  define newPop where "newPop =
      createPopulation (fitnessDraws ex_genv) (newPopId ex_genv) (newPopNow ex_genv) new
        (pop_generation pe + 1)"
  have s6: "currentPopulation ?s6 = Some (next_ref (snd cs))"
      "next_ref ?s6 = Suc (next_ref (snd cs))"
      "heap ?s6 (next_ref (snd cs)) = Some newPop"
    using cur5 hp5 nr5
    by (simp_all add: replacePopulation_def Let_def performMutation_ex newPop_def new_def)
  have ec: "eliteCount ex_cfg pe = 1"
    by (simp add: eliteCount_def ex_cfg_def pe(2) fmul_def fl_quarter)
  have "0 \<le> elitismRate ex_cfg" by (simp add: ex_cfg_def)
  from elites_length [OF this, of pe] ec pe(2)
  have le: "length (elites ex_cfg pe) = 1" by simp
  have new: "new = elites ex_cfg pe @ ?off"
  proof -
    have "populationSize ex_cfg = 4" by (simp add: ex_cfg_def)
    then have "int (length (elites ex_cfg pe @ ?off)) \<le> populationSize ex_cfg"
      using le lo by simp
    then show ?thesis unfolding new_def by (rule js_slice0_all)
  qed
  have ln: "length (agents newPop) = 3" by (simp add: newPop_def new le lo)
  have "?off \<noteq> []" using lo by auto
  then have "hd ?off \<in> set ?off" by simp
  then have "hd ?off \<in> set (map agent (agents newPop))"
    unfolding newPop_def createPopulation_agents new by simp
  then obtain x where x: "x \<in> set (agents newPop)" "agent x = hd ?off" by auto
  have "\<not> hasMethods (hd ?off)" using co \<open>hd ?off \<in> set ?off\<close> by blast
  then have ex: "\<exists>x \<in> set (agents newPop). \<not> hasMethods (agent x)"
    using x by (intro bexI [of _ x]) simp_all
  have "copy_in_population ?s6"
    using s6 ln ex by (simp add: copy_in_population_def)
  then have "copy_in_population (snd (snd (updateCycleResults ex_genv (fst ?cs5, ?s6))))"
    using copy_in_population_cong [of "snd (snd (updateCycleResults ex_genv (fst ?cs5, ?s6)))" ?s6]
    by simp
  then show ?thesis by (simp only: eq)
qed

lemma run_loop_one:
  assumes "loop_inv r0 A n (snd cs)" and "cycle_population (fst cs) = Some r0"
    and "\<not> shouldStop (snd cs)"
  shows "snd (snd (run_loop cfg w envs g (Suc 0) cs))
           = snd (snd (runGeneration cfg w (envs g)
                         (fst cs, (snd cs) \<lparr> shouldStop := stopRequested (envs g) \<rparr>)))"
proof -
  let ?s0 = "(snd cs) \<lparr> shouldStop := stopRequested (envs g) \<rparr>"
  let ?res = "runGeneration cfg w (envs g) (fst cs, ?s0)"
  have r: "fst ?res = None \<and> loop_inv r0 A n (snd (snd ?res))
      \<and> cycle_population (fst (snd ?res)) = Some r0"
    by (rule runGeneration_ok) (use assms in \<open>simp_all\<close>)
  then obtain b where b: "hasConverged cfg (snd (snd ?res)) = Inr b"
    using hasConverged_ok loop_inv_next by blast
  show ?thesis using assms(3) r b by (simp add: Let_def)
qed

lemma loop_inv_methods:
  assumes "loop_inv r0 (agent ` set (agents p0)) m s"
    and "\<forall>x \<in> set (agents p0). hasMethods (agent x)"
  shows "methods_at r0 s"
proof -
  from assms(1) obtain p where p: "heap s r0 = Some p"
      "agent ` set (agents p) = agent ` set (agents p0)"
    by (auto simp: loop_inv_def members_at_def)
  have "\<forall>x \<in> set (agents p). hasMethods (agent x)"
  proof
    fix x assume "x \<in> set (agents p)"
    then have "agent x \<in> agent ` set (agents p0)" using p(2) by auto
    then obtain x0 where "x0 \<in> set (agents p0)" "agent x = agent x0" by blast
    with assms(2) show "hasMethods (agent x)" by simp
  qed
  with p(1) show ?thesis by (simp add: methods_at_def)
qed

text \<open>
  The first cycle on the initialized engine completes, and the engine it leaves holds
  the two children in its current population of three.
\<close>

lemma ex_first_cycle:
  "\<exists>c. evolve ex_cfg defaultWeights ex_cycleEnv 1 ex_engine = (Inr c, ex_engine_next)
       \<and> phase c = Completed"
  and ex_engine_next_idle: "\<not> isRunning ex_engine_next"
  and ex_engine_next_copy: "copy_in_population ex_engine_next"
  and ex_engine_next_refs: "history_refs ex_engine_next"
proof -
  let ?s1 = "ex_engine \<lparr> isRunning := True, shouldStop := False \<rparr>"
  define cycle where "cycle =
     \<lparr> cycle_id = generateCycleId (cycleIdSrc ex_cycleEnv),
       cycle_generation = totalGenerations (history ?s1) + 1,
       startTime = startNow ex_cycleEnv, endTime = None, phase = Initialization,
       cycle_population = currentPopulation ?s1, cycle_mutations = [],
       results = \<lparr> improved = 0, degraded = 0, unchanged = 0, failed = 0,
                   averageFitnessChange = 0 \<rparr> \<rparr>"
  let ?cs = "(cycle, ?s1 \<lparr> currentCycle := Some cycle \<rparr>)"
  let ?A = "agent ` set (agents ex_population)"
  let ?m = "length (agents ex_population)"
  have nr: "\<not> isRunning ex_engine" by (simp add: ex_engine_def)
  have hp: "heap ex_engine 0 = Some ex_population" "currentPopulation ex_engine = Some 0"
      "next_ref ex_engine = 1" "cycles (history ex_engine) = []"
    by (simp_all add: ex_engine_def)
  have meth: "\<forall>x \<in> set (agents ex_population). hasMethods (agent x)"
    by (simp add: ex_population_def ex_member_def ex_agent_def)
  have inv: "loop_inv 0 ?A ?m (snd ?cs)"
    using hp by (simp add: loop_inv_def members_at_def history_refs_def)
  have cp: "cycle_population (fst ?cs) = Some 0" by (simp add: cycle_def hp)
  let ?res = "run_loop ex_cfg defaultWeights (gens ex_cycleEnv) 0 1 ?cs"
  from run_loop_ok [OF inv cp, of ex_cfg defaultWeights "gens ex_cycleEnv" 0 1]
  have ok: "fst ?res = None" "loop_inv 0 ?A ?m (snd (snd ?res))"
    "cycle_population (fst (snd ?res)) = Some 0"
    by simp_all
  have "\<not> shouldStop (snd ?cs)" by simp
  from run_loop_one [OF inv cp this, of ex_cfg defaultWeights "gens ex_cycleEnv" 0]
  have one: "snd (snd ?res)
      = snd (snd (runGeneration ex_cfg defaultWeights ex_genv
                    (fst ?cs, (snd ?cs) \<lparr> shouldStop := stopRequested ex_genv \<rparr>)))"
    by (simp add: ex_cycleEnv_def)
  have "copy_in_population (snd (snd (runGeneration ex_cfg defaultWeights ex_genv
                    (fst ?cs, (snd ?cs) \<lparr> shouldStop := stopRequested ex_genv \<rparr>))))"
    by (rule runGeneration_copy [of _ ex_population 0])
       (simp_all add: thePopulation_def hp ex_population_def)
  then have copy: "copy_in_population (snd (snd ?res))" by (simp only: one)
  let ?c = "(fst (snd ?res)) \<lparr> phase := Completed, endTime := Some (endNow ex_cycleEnv) \<rparr>"
  let ?s2 = "(snd (snd ?res)) \<lparr> currentCycle := None \<rparr>"
  have run: "runEvolutionCycle ex_cfg defaultWeights ex_cycleEnv 1 ?s1 = (Inr ?c, ?s2)"
    unfolding runEvolutionCycle_def Let_def cycle_def [symmetric]
    using ok(1) by simp
  have "methods_at 0 (snd (snd ?res))" using ok(2) meth by (rule loop_inv_methods)
  then have m2: "methods_at 0 ?s2" by (simp add: methods_at_def)
  have c0: "cycle_population ?c = Some 0" using ok(3) by simp
  let ?ar = "archiveBestAgents ex_cycleEnv ?c ?s2"
  have ar: "fst ?ar = None" using c0 m2 by (rule archiveBestAgents_ok)
  let ?s3 = "(snd ?ar) \<lparr> history := (history (snd ?ar))
               \<lparr> cycles := cycles (history (snd ?ar)) @ [?c],
                 totalGenerations := totalGenerations (history (snd ?ar)) + 1 \<rparr> \<rparr>"
  have body: "evolve_body ex_cfg defaultWeights ex_cycleEnv 1 ?s1 = (Inr ?c, ?s3)"
    using run ar by (simp add: evolve_body_def Let_def)
  have ev: "evolve ex_cfg defaultWeights ex_cycleEnv 1 ex_engine
              = (Inr ?c, ?s3 \<lparr> isRunning := False \<rparr>)"
    using nr body by (simp add: evolve_def Let_def)
  then have nxt: "ex_engine_next = ?s3 \<lparr> isRunning := False \<rparr>"
    by (simp add: ex_engine_next_def)
  show "\<exists>c. evolve ex_cfg defaultWeights ex_cycleEnv 1 ex_engine = (Inr c, ex_engine_next)
       \<and> phase c = Completed"
    using ev nxt by simp
  show "\<not> isRunning ex_engine_next" by (simp add: nxt)
  have "copy_in_population ?s2"
    using copy copy_in_population_cong [of ?s2 "snd (snd ?res)"] by simp
  then have "copy_in_population (snd ?ar)" by (rule archiveBestAgents_copy)
  then show "copy_in_population ex_engine_next"
    using copy_in_population_cong [of ex_engine_next "snd ?ar"] by (simp add: nxt)
  from ok(2) obtain p where "heap ?s2 0 = Some p"
    by (auto simp: loop_inv_def members_at_def)
  with archiveBestAgents_heap [of ex_cycleEnv ?c ?s2]
  obtain p' where "heap (snd ?ar) 0 = Some p'" by blast
  then have h0: "heap ex_engine_next 0 \<noteq> None" by (simp add: nxt)
  have "cycles (history ex_engine_next) = cycles (history ex_engine) @ [?c]"
    using evolve_result [OF nr, of ex_cfg defaultWeights ex_cycleEnv 1 ?c ex_engine_next]
      ev nxt by simp
  then have "cycles (history ex_engine_next) = [?c]" by (simp add: hp)
  then show "history_refs ex_engine_next"
    using c0 h0 by (simp add: history_refs_def)
qed

section \<open>Single flight and generation numbering\<close>

lemma run_loop_isRunning:
  "isRunning (snd (snd (run_loop cfg w envs g k cs))) = isRunning (snd cs)"
  using run_loop_frame [of cs cfg w envs g k] by (simp add: engine_frame_def)

lemma ex_engine_ready: "engine_ready ex_engine"
  by (simp add: engine_ready_def methods_at_def history_refs_def ex_engine_def
      ex_population_def ex_member_def ex_agent_def)

text \<open>
  The guard of \<open>evolve\<close>. A call on an engine whose \<open>isRunning\<close> flag is set fails at
  once with the error \<open>Evolution is already running\<close> and leaves the engine state, the
  running cycle included, as it was. The flag is set from the moment the first call has
  entered and stays set after any number of its generations, so a second call made
  there is refused. A call that returns a cycle returns it with phase \<open>Completed\<close> and
  \<open>endTime\<close> stamped, and has cleared the flag.
\<close>

lemma evolve_guard:
  "(isRunning s \<longrightarrow> evolve cfg w env n s = (Inl AlreadyRunning, s))
   \<and> (\<forall>k c0 cfg2 w2 env2 n2.
        evolve cfg2 w2 env2 n2
          (snd (snd (run_loop cfg w (gens env) 0 k
             (c0, s \<lparr> isRunning := True, shouldStop := False, currentCycle := Some c0 \<rparr>))))
        = (Inl AlreadyRunning,
           snd (snd (run_loop cfg w (gens env) 0 k
             (c0, s \<lparr> isRunning := True, shouldStop := False, currentCycle := Some c0 \<rparr>)))))
   \<and> (\<not> isRunning s \<and> evolve cfg w env n s = (Inr c, s')
        \<longrightarrow> phase c = Completed \<and> endTime c = Some (endNow env) \<and> \<not> isRunning s')"
proof (intro conjI impI allI)
  assume "isRunning s"
  then show "evolve cfg w env n s = (Inl AlreadyRunning, s)" by (rule evolve_running)
next
  fix k c0 cfg2 w2 env2 n2
  let ?mid = "snd (snd (run_loop cfg w (gens env) 0 k
             (c0, s \<lparr> isRunning := True, shouldStop := False, currentCycle := Some c0 \<rparr>)))"
  have "isRunning ?mid" by (simp add: run_loop_isRunning)
  then show "evolve cfg2 w2 env2 n2 ?mid = (Inl AlreadyRunning, ?mid)" by (rule evolve_running)
next
  assume a: "\<not> isRunning s \<and> evolve cfg w env n s = (Inr c, s')"
  then show "phase c = Completed" "endTime c = Some (endNow env)" "\<not> isRunning s'"
    using evolve_result [of s cfg w env n c s'] by simp_all
qed

text \<open>
  Claim C4, at the input where the code departs from it. The engine is the one the
  first cycle leaves: \<open>evolve(1)\<close> on the initialized engine has completed, and the
  current population holds the elite and two children of the crossover. Here
  \<open>evolve(1)\<close> is called again. A second call made while it runs, after any number of
  its generations, is refused with \<open>Evolution is already running\<close> and changes
  nothing, as the claim says. But the first call does not complete: the children are
  object-spread copies without \<open>serialize\<close>, \<open>archiveBestAgents\<close> throws, and \<open>evolve\<close>
  rejects with the TypeError instead of returning a cycle with phase \<open>Completed\<close>.
\<close>

theorem evolve_second_cycle_fails:
  "(\<exists>c. evolve ex_cfg defaultWeights ex_cycleEnv 1 ex_engine = (Inr c, ex_engine_next)
        \<and> phase c = Completed)
   \<and> \<not> isRunning ex_engine_next
   \<and> (\<forall>k c0.
        evolve ex_cfg defaultWeights ex_cycleEnv 1
          (snd (snd (run_loop ex_cfg defaultWeights (gens ex_cycleEnv) 0 k
             (c0, ex_engine_next \<lparr> isRunning := True, shouldStop := False,
                                   currentCycle := Some c0 \<rparr>))))
        = (Inl (Error ''Evolution is already running''),
           snd (snd (run_loop ex_cfg defaultWeights (gens ex_cycleEnv) 0 k
             (c0, ex_engine_next \<lparr> isRunning := True, shouldStop := False,
                                   currentCycle := Some c0 \<rparr>)))))
   \<and> fst (evolve ex_cfg defaultWeights ex_cycleEnv 1 ex_engine_next)
       = Inl (TypeError ''agent.serialize is not a function'')"
proof (intro conjI allI)
  show "\<exists>c. evolve ex_cfg defaultWeights ex_cycleEnv 1 ex_engine = (Inr c, ex_engine_next)
        \<and> phase c = Completed"
    by (rule ex_first_cycle)
next
  show "\<not> isRunning ex_engine_next" by (rule ex_engine_next_idle)
next
  fix k c0
  let ?mid = "snd (snd (run_loop ex_cfg defaultWeights (gens ex_cycleEnv) 0 k
             (c0, ex_engine_next \<lparr> isRunning := True, shouldStop := False,
                                   currentCycle := Some c0 \<rparr>)))"
  have "isRunning ?mid" by (simp add: run_loop_isRunning)
  then have "evolve ex_cfg defaultWeights ex_cycleEnv 1 ?mid = (Inl AlreadyRunning, ?mid)"
    by (rule evolve_running)
  then show "evolve ex_cfg defaultWeights ex_cycleEnv 1 ?mid
               = (Inl (Error ''Evolution is already running''), ?mid)"
    by (simp add: AlreadyRunning_def)
next
  show "fst (evolve ex_cfg defaultWeights ex_cycleEnv 1 ex_engine_next)
       = Inl (TypeError ''agent.serialize is not a function'')"
    using ex_engine_next_idle ex_engine_next_copy ex_engine_next_refs
    by (rule evolve_copy_fails)
qed

text \<open>
  Claim C10. When \<open>evolve n\<close> returns a cycle, \<open>history.totalGenerations\<close> has grown by
  the requested \<open>n\<close>, the cycle's \<open>generation\<close> is the old total plus 1, and the cycle
  of the next successful call gets the old total plus \<open>n\<close> plus 1. This counts requested
  generations: on a ready engine with a stop request during the first generation,
  \<open>evolve (k + 1)\<close> returns after one generation (the generation counter of the
  population goes up by 1) and still adds \<open>k + 1\<close> to the total.
\<close>

theorem evolve_counts_requested:
  "(\<not> isRunning s \<and> evolve cfg w env n s = (Inr c, s')
      \<longrightarrow> totalGenerations (history s') = totalGenerations (history s) + n
        \<and> cycle_generation c = totalGenerations (history s) + 1
        \<and> (\<forall>cfg2 w2 env2 m c2 s2.
              evolve cfg2 w2 env2 m s' = (Inr c2, s2)
              \<longrightarrow> cycle_generation c2 = totalGenerations (history s) + n + 1))
   \<and> (\<not> isRunning s \<and> engine_ready s \<and> stopRequested (gens env 0)
        \<and> currentGeneration s = Some g
      \<longrightarrow> (\<exists>c s'. evolve cfg w env (Suc k) s = (Inr c, s')
            \<and> currentGeneration s' = Some (g + 1)
            \<and> totalGenerations (history s') = totalGenerations (history s) + Suc k))"
proof (intro conjI impI allI)
  assume a: "\<not> isRunning s \<and> evolve cfg w env n s = (Inr c, s')"
  then have r: "\<not> isRunning s'"
      "totalGenerations (history s') = totalGenerations (history s) + n"
      "cycle_generation c = totalGenerations (history s) + 1"
    using evolve_result [of s cfg w env n c s'] by simp_all
  show "totalGenerations (history s') = totalGenerations (history s) + n" by (rule r(2))
  show "cycle_generation c = totalGenerations (history s) + 1" by (rule r(3))
  fix cfg2 w2 env2 m c2 s2
  assume "evolve cfg2 w2 env2 m s' = (Inr c2, s2)"
  from evolve_result [OF r(1) this] r(2)
  show "cycle_generation c2 = totalGenerations (history s) + n + 1" by simp
next
  assume a: "\<not> isRunning s \<and> engine_ready s \<and> stopRequested (gens env 0)
        \<and> currentGeneration s = Some g"
  then obtain c s' where r: "evolve cfg w env (Suc k) s = (Inr c, s')"
    using evolve_completes by blast
  have "currentGeneration s' = Some (g + 1)"
    using evolve_stop_request [of s env g cfg w k] a r by simp
  moreover have "totalGenerations (history s') = totalGenerations (history s) + Suc k"
    using evolve_result [of s cfg w env "Suc k" c s'] a r by simp
  ultimately show "\<exists>c s'. evolve cfg w env (Suc k) s = (Inr c, s')
            \<and> currentGeneration s' = Some (g + 1)
            \<and> totalGenerations (history s') = totalGenerations (history s) + Suc k"
    using r by blast
qed

theorem evolve_counts_requested_witness:
  "\<exists>c s'. evolve ex_cfg defaultWeights ex_cycleEnv 3 ex_engine = (Inr c, s')
     \<and> currentGeneration s' = Some 1
     \<and> totalGenerations (history s') = 3
     \<and> cycle_generation c = 1"
proof -
  have nr: "\<not> isRunning ex_engine" by (simp add: ex_engine_def)
  have st: "stopRequested (gens ex_cycleEnv 0)" by (simp add: ex_cycleEnv_def ex_genv_def)
  have g: "currentGeneration ex_engine = Some 0"
    by (simp add: currentGeneration_def ex_thePopulation ex_population_def)
  have t: "totalGenerations (history ex_engine) = 0" by (simp add: ex_engine_def)
  have "\<exists>c s'. evolve ex_cfg defaultWeights ex_cycleEnv 3 ex_engine = (Inr c, s')
          \<and> currentGeneration s' = Some 1 \<and> totalGenerations (history s') = 3"
    using evolve_counts_requested [of ex_engine ex_cfg defaultWeights ex_cycleEnv 3 c0 s0 0 2]
      nr ex_engine_ready st g t
    by simp
  then obtain c s' where r: "evolve ex_cfg defaultWeights ex_cycleEnv 3 ex_engine = (Inr c, s')"
    "currentGeneration s' = Some 1" "totalGenerations (history s') = 3"
    by blast
  from evolve_counts_requested [of ex_engine ex_cfg defaultWeights ex_cycleEnv 3 c s' 0 2] nr r(1) t
  have "cycle_generation c = 1" by simp
  with r show ?thesis by blast
qed

end
